theory Spec2Isabelle
  imports Main
begin

section \<open>Data model of the display page (the game component)\<close>

text \<open>
  The game lives in the component \<open>TetrisGame\<close> of the display page: one mutable state
  object, the callbacks that change it, and the interval timer that drives gravity. The
  model keeps the state and the timer. Calls that only reach the environment (drawing,
  sounds, the React mirrors of score, lines and level, the stored high score, the hatch
  animation) change nothing a callback reads back, and are left out. So is the cleanup of
  the effect that subscribes to the transports: it runs when the page goes away, and
  after a game over that set a new high score, when no timer is left to clear.

  Coordinates, the lines total and the level are integers (\<open>int\<close>). The playing field is a JavaScript array of rows (\<open>number[][]\<close>). A cell that is read
  past the end of an array, or that lies in a hole of a sparse array, is \<open>undefined\<close>;
  it is modelled as \<open>None\<close>, a number \<open>n\<close> as \<open>Some n\<close>. The colour board holds
  \<open>string | null\<close>; both \<open>null\<close> and \<open>undefined\<close> are \<open>None\<close> there (only the
  renderer reads the colour board, and it treats the two alike). Rows are values: two
  rows of a board are never the same array object, since every row is made by its own
  \<open>Array(COLS).fill\<close> call.
\<close>

type_synonym cell = "int option"
type_synonym matrix = "cell list list"
type_synonym colors = "string option list list"

definition COLS :: int where
  "COLS = 10"

definition ROWS :: int where
  "ROWS = 20"

definition SHAPES :: "(matrix \<times> string) list" where
  "SHAPES =
    [([[Some 1, Some 1, Some 1, Some 1]], ''#00f5ff''),
     ([[Some 1, Some 1], [Some 1, Some 1]], ''#ffd700''),
     ([[Some 0, Some 1, Some 0], [Some 1, Some 1, Some 1]], ''#a855f7''),
     ([[Some 1, Some 0, Some 0], [Some 1, Some 1, Some 1]], ''#ff6b2c''),
     ([[Some 0, Some 0, Some 1], [Some 1, Some 1, Some 1]], ''#3b82f6''),
     ([[Some 1, Some 1, Some 0], [Some 0, Some 1, Some 1]], ''#22c55e''),
     ([[Some 0, Some 1, Some 1], [Some 1, Some 1, Some 0]], ''#ef4444'')]"

record Piece =
  shape :: matrix
  color :: string
  x :: int
  y :: int

text \<open>
  The score is a JavaScript number, a double. It is the one number of the state whose
  arithmetic the model follows beyond the integers: indexing the points table past its
  end gives \<open>undefined\<close>, and \<open>undefined * level\<close> is \<open>NaN\<close>; and a sum or product that is
  no longer a safe integer is rounded to the nearest double, ties to the even mantissa,
  and overflows to an infinity. \<open>Num n\<close> is the double of value \<open>n\<close>.
\<close>

datatype number = Num int | Infinity | MinusInfinity | NaN

function bitLength :: "int \<Rightarrow> nat" where
  \<comment> \<open>the number of binary digits of a positive integer\<close>
  "bitLength n = (if n \<le> 0 then 0 else Suc (bitLength (n div 2)))"
  by pat_completeness auto
termination
  by (relation "measure nat") auto

declare bitLength.simps [simp del]

definition safeInteger :: "int \<Rightarrow> bool" where
  \<comment> \<open>below \<open>2^53 = 9007199254740992\<close> in magnitude: every such integer is a double\<close>
  "safeInteger n \<longleftrightarrow> \<bar>n\<bar> < 9007199254740992"

definition roundDouble :: "int \<Rightarrow> number" where
  \<comment> \<open>the double nearest to the integer \<open>n\<close>: 53 bits of mantissa, ties to even, and an
      infinity from \<open>2^1024\<close> (more than 1024 binary digits) on\<close>
  "roundDouble n =
     (if safeInteger n then Num n
      else
        let m = \<bar>n\<bar>;
            q = 2 ^ (bitLength m - 53);
            r = m mod q;
            lo = m - r;
            mag = (if 2 * r < q then lo
                   else if q < 2 * r then lo + q
                   else if even (lo div q) then lo else lo + q)
        in if 1024 < bitLength mag then (if n < 0 then MinusInfinity else Infinity)
           else Num (if n < 0 then - mag else mag))"

fun plus_number :: "number \<Rightarrow> number \<Rightarrow> number" where
  "plus_number (Num a) (Num b) = roundDouble (a + b)"
| "plus_number NaN _ = NaN"
| "plus_number _ NaN = NaN"
| "plus_number Infinity MinusInfinity = NaN"
| "plus_number MinusInfinity Infinity = NaN"
| "plus_number Infinity _ = Infinity"
| "plus_number _ Infinity = Infinity"
| "plus_number MinusInfinity _ = MinusInfinity"
| "plus_number _ MinusInfinity = MinusInfinity"

record GameState =
  board :: matrix
  boardColors :: colors
  piece :: Piece
  nextPiece :: Piece
  score :: number
  lines :: int
  level :: int
  isRunning :: bool
  isPaused :: bool
  isGameOver :: bool

text \<open>
  The component owns the game state (\<open>gameStateRef\<close>) and the handle of the gravity
  timer (\<open>dropIntervalRef\<close>, \<open>None\<close> for \<open>null\<close>). The window's table of live interval
  timers that call \<open>drop\<close> is part of the state too: \<open>intervals\<close> lists each live
  timer as (handle, delay in ms) in the order of creation, and \<open>lastHandle\<close> is the
  last handle that \<open>setInterval\<close> gave out (handles are positive and never reused).
\<close>

record TetrisGame = GameState +
  dropIntervalRef :: "nat option"
  intervals :: "(nat \<times> int) list"
  lastHandle :: nat

datatype error = TypeError

text \<open>
  A function that can throw returns an outcome. The state is mutated in place, so what
  was written before an exception stays written: \<open>Throw\<close> carries the state at the
  moment of the throw.
\<close>

datatype 'a outcome = Return 'a | Throw error 'a

fun after :: "'a outcome \<Rightarrow> 'a" where
  "after (Return s) = s"
| "after (Throw e s) = s"

subsection \<open>Array primitives\<close>

definition index :: "'a option list \<Rightarrow> int \<Rightarrow> 'a option" where
  \<comment> \<open>\<open>row[i]\<close>: \<open>undefined\<close> outside the array\<close>
  "index row i = (if 0 \<le> i \<and> nat i < length row then row ! nat i else None)"

definition assign :: "'a option list \<Rightarrow> int \<Rightarrow> 'a \<Rightarrow> 'a option list" where
  \<comment> \<open>\<open>row[i] = v\<close>: a negative \<open>i\<close> sets a property and no element; an \<open>i\<close> past the
      end extends the array, leaving holes\<close>
  "assign row i v =
     (if i < 0 then row
      else if nat i < length row then row[nat i := Some v]
      else row @ replicate (nat i - length row) None @ [Some v])"

definition splice1 :: "nat \<Rightarrow> 'a list \<Rightarrow> 'a list" where
  \<comment> \<open>\<open>xs.splice(i, 1)\<close>: nothing is removed when \<open>i\<close> is past the end\<close>
  "splice1 i xs = take i xs @ drop (Suc i) xs"

definition truthy :: "cell \<Rightarrow> bool" where
  "truthy v = (v \<noteq> None \<and> v \<noteq> Some 0)"

subsection \<open>Boards and pieces\<close>

definition createEmptyBoard :: matrix where
  "createEmptyBoard = replicate (nat ROWS) (replicate (nat COLS) (Some 0))"

definition createEmptyColorBoard :: colors where
  "createEmptyColorBoard = replicate (nat ROWS) (replicate (nat COLS) None)"

text \<open>
  \<open>randomPiece\<close> takes the value of \<open>Math.floor(Math.random() * SHAPES.length)\<close>, which
  lies in \<open>0..6\<close>, as its argument.
\<close>

definition randomPiece :: "nat \<Rightarrow> Piece" where
  "randomPiece i =
     (case SHAPES ! i of (shp, col) \<Rightarrow>
        \<lparr>shape = map (\<lambda>row. row) shp, color = col,
         x = COLS div 2 - int (length (shp ! 0)) div 2, y = 0\<rparr>)"

subsection \<open>Collision test\<close>

definition collide :: "Piece \<Rightarrow> matrix \<Rightarrow> bool" where
  "collide p b =
     list_ex (\<lambda>(dy, row).
       list_ex (\<lambda>(dx, v).
         if \<not> truthy v then False
         else
           let newX = x p + int dx; newY = y p + int dy
           in newX < 0 \<or> newX \<ge> COLS \<or> newY \<ge> ROWS \<or>
              (newY \<ge> 0 \<and>
                 (if nat newY < length b then index (b ! nat newY) newX else None) \<noteq> Some 0))
         (enumerate 0 row))
       (enumerate 0 (shape p))"

subsection \<open>Merging a piece into the board\<close>

fun merge_row ::
  "Piece \<Rightarrow> nat \<Rightarrow> nat \<Rightarrow> cell list \<Rightarrow> matrix \<Rightarrow> colors \<Rightarrow> (matrix \<times> colors) outcome"
where
  "merge_row p dy dx [] b bc = Return (b, bc)"
| "merge_row p dy dx (v # row) b bc =
     (if truthy v \<and> y p + int dy \<ge> 0 then
        (let r = nat (y p + int dy); c = x p + int dx in
         if r < length b then
           (let b' = b[r := assign (b ! r) c 1] in
            if r < length bc then
              merge_row p dy (Suc dx) row b' (bc[r := assign (bc ! r) c (color p)])
            else Throw TypeError (b', bc))
         else Throw TypeError (b, bc))
      else merge_row p dy (Suc dx) row b bc)"

fun merge_rows ::
  "Piece \<Rightarrow> nat \<Rightarrow> matrix \<Rightarrow> matrix \<Rightarrow> colors \<Rightarrow> (matrix \<times> colors) outcome"
where
  "merge_rows p dy [] b bc = Return (b, bc)"
| "merge_rows p dy (row # rows) b bc =
     (case merge_row p dy 0 row b bc of
        Return (b', bc') \<Rightarrow> merge_rows p (Suc dy) rows b' bc'
      | Throw e s \<Rightarrow> Throw e s)"

definition merge :: "Piece \<Rightarrow> matrix \<Rightarrow> colors \<Rightarrow> (matrix \<times> colors) outcome" where
  "merge p b bc = merge_rows p 0 (shape p) b bc"

subsection \<open>Line clearing\<close>

definition full_row :: "cell list \<Rightarrow> bool" where
  \<comment> \<open>\<open>row.every((cell) => cell !== 0)\<close>; \<open>every\<close> skips holes, and \<open>undefined !== 0\<close>\<close>
  "full_row row = list_all (\<lambda>cell. cell \<noteq> Some 0) row"

definition empty_row :: "cell list" where
  "empty_row = replicate (nat COLS) (Some 0)"

definition empty_color_row :: "string option list" where
  "empty_color_row = replicate (nat COLS) None"

text \<open>
  The loop of \<open>clearLines\<close> with the loop variable \<open>yi\<close> (the source's \<open>y\<close>): after a row
  is removed the source increments \<open>y\<close> and the loop header decrements it, so the same
  index is looked at again. \<open>board[y]\<close> is \<open>undefined\<close> when the board has fewer rows
  than \<open>yi + 1\<close>, and calling \<open>every\<close> on it throws.
\<close>

function clearLines_loop ::
  "int \<Rightarrow> matrix \<Rightarrow> colors \<Rightarrow> nat \<Rightarrow> (matrix \<times> colors \<times> nat) outcome"
where
  "clearLines_loop yi b bc linesCleared =
     (if yi \<ge> 0 then
        (if nat yi < length b then
           (if full_row (b ! nat yi) then
              clearLines_loop yi (empty_row # splice1 (nat yi) b)
                (empty_color_row # splice1 (nat yi) bc) (Suc linesCleared)
            else clearLines_loop (yi - 1) b bc linesCleared)
         else Throw TypeError (b, bc, linesCleared))
      else Return (b, bc, linesCleared))"
  by pat_completeness auto

lemma full_row_empty_row: "\<not> full_row empty_row"
  by (simp add: full_row_def empty_row_def COLS_def list_all_iff)

lemma filter_full_splice1:
  assumes "i < length b" and "full_row (b ! i)"
  shows "length (filter full_row (splice1 i b)) < length (filter full_row b)"
proof -
  have "b = take i b @ b ! i # drop (Suc i) b"
    using assms(1) by (rule id_take_nth_drop)
  then have "filter full_row b =
      filter full_row (take i b) @ b ! i # filter full_row (drop (Suc i) b)"
    using assms(2) by (metis filter.simps(2) filter_append)
  then have "length (filter full_row b) =
      Suc (length (filter full_row (take i b)) + length (filter full_row (drop (Suc i) b)))"
    by simp
  then show ?thesis
    by (simp add: splice1_def)
qed

termination clearLines_loop
  by (relation "measures [\<lambda>(yi, b, bc, n). length (filter full_row b),
                           \<lambda>(yi, b, bc, n). nat (yi + 1)]")
     (auto simp: filter_full_splice1 full_row_empty_row)

definition clearLines :: "matrix \<Rightarrow> colors \<Rightarrow> (matrix \<times> colors \<times> nat) outcome" where
  "clearLines b bc = clearLines_loop (ROWS - 1) b bc 0"

subsection \<open>The gravity timer\<close>

definition clearInterval :: "nat \<Rightarrow> TetrisGame \<Rightarrow> TetrisGame" where
  "clearInterval h g = g\<lparr>intervals := filter (\<lambda>t. fst t \<noteq> h) (intervals g)\<rparr>"

definition setInterval_drop :: "int \<Rightarrow> TetrisGame \<Rightarrow> TetrisGame" where
  \<comment> \<open>\<open>dropIntervalRef.current = window.setInterval(drop, speed)\<close>\<close>
  "setInterval_drop speed g =
     g\<lparr>dropIntervalRef := Some (Suc (lastHandle g)),
       intervals := intervals g @ [(Suc (lastHandle g), speed)],
       lastHandle := Suc (lastHandle g)\<rparr>"

definition dropSpeed :: "int \<Rightarrow> int" where
  \<comment> \<open>\<open>Math.max(100, 700 - (state.level - 1) * 50)\<close>\<close>
  "dropSpeed lv = max 100 (700 - (lv - 1) * 50)"

definition currentHandle :: "TetrisGame \<Rightarrow> nat option" where
  \<comment> \<open>the handle for which \<open>if (dropIntervalRef.current)\<close> holds: neither \<open>null\<close> nor 0\<close>
  "currentHandle g =
     (case dropIntervalRef g of
        None \<Rightarrow> None
      | Some h \<Rightarrow> if h = 0 then None else Some h)"

definition stopDropInterval :: "TetrisGame \<Rightarrow> TetrisGame" where
  \<comment> \<open>\<open>if (dropIntervalRef.current) { clearInterval(...); dropIntervalRef.current = null; }\<close>\<close>
  "stopDropInterval g =
     (case currentHandle g of
        None \<Rightarrow> g
      | Some h \<Rightarrow> (clearInterval h g)\<lparr>dropIntervalRef := None\<rparr>)"

subsection \<open>The gravity step\<close>

definition linePoints :: "int list" where
  "linePoints = [0, 100, 300, 500, 800]"

definition lineScore :: "nat \<Rightarrow> int \<Rightarrow> number" where
  \<comment> \<open>\<open>linePoints[linesCleared] * state.level\<close>\<close>
  "lineScore linesCleared lv =
     (if linesCleared < length linePoints then roundDouble (linePoints ! linesCleared * lv)
      else NaN)"

definition down :: "Piece \<Rightarrow> Piece" where
  \<comment> \<open>\<open>{ ...piece, y: piece.y + 1 }\<close>\<close>
  "down p = p\<lparr>y := y p + 1\<rparr>"

definition awardLines :: "nat \<Rightarrow> TetrisGame \<Rightarrow> TetrisGame" where
  \<comment> \<open>the body of \<open>if (linesCleared > 0)\<close> in \<open>drop\<close>\<close>
  "awardLines linesCleared g =
     (let g1 = g\<lparr>score := plus_number (score g) (lineScore linesCleared (level g))\<rparr>;
          g2 = g1\<lparr>lines := lines g1 + int linesCleared\<rparr>;
          g3 = g2\<lparr>level := lines g2 div 10 + 1\<rparr>
      in case currentHandle g3 of
           None \<Rightarrow> g3
         | Some h \<Rightarrow> setInterval_drop (dropSpeed (level g3)) (clearInterval h g3))"

definition lockPiece :: "nat \<Rightarrow> TetrisGame \<Rightarrow> TetrisGame outcome" where
  \<comment> \<open>\<open>drop\<close> from \<open>merge\<close> on, with \<open>r\<close> the shape index that \<open>randomPiece\<close> draws\<close>
  "lockPiece r g =
     (case merge (piece g) (board g) (boardColors g) of
        Throw e (b, bc) \<Rightarrow> Throw e (g\<lparr>board := b, boardColors := bc\<rparr>)
      | Return (b, bc) \<Rightarrow>
          (case clearLines b bc of
             Throw e (b', bc', n) \<Rightarrow> Throw e (g\<lparr>board := b', boardColors := bc'\<rparr>)
           | Return (b', bc', linesCleared) \<Rightarrow>
               (let g1 = g\<lparr>board := b', boardColors := bc'\<rparr>;
                    g2 = (if linesCleared > 0 then awardLines linesCleared g1 else g1)
                in Return (g2\<lparr>piece := nextPiece g2, nextPiece := randomPiece r\<rparr>))))"

definition drop_step :: "nat \<Rightarrow> TetrisGame \<Rightarrow> TetrisGame outcome" where
  \<comment> \<open>the source's \<open>drop\<close>\<close>
  "drop_step r g =
     (if isPaused g \<or> isGameOver g then Return g
      else if collide (down (piece g)) (board g) then
        (if y (piece g) \<le> 0 then Return (stopDropInterval (g\<lparr>isGameOver := True\<rparr>))
         else lockPiece r g)
      else Return (g\<lparr>piece := down (piece g)\<rparr>))"

subsection \<open>Player moves\<close>

definition move :: "int \<Rightarrow> TetrisGame \<Rightarrow> TetrisGame" where
  "move dir g =
     (if \<not> isRunning g \<or> isPaused g \<or> isGameOver g then g
      else
        let newPiece = (piece g)\<lparr>x := x (piece g) + dir\<rparr>
        in if \<not> collide newPiece (board g) then g\<lparr>piece := newPiece\<rparr> else g)"

definition rotated :: "matrix \<Rightarrow> matrix" where
  \<comment> \<open>\<open>shape[0].map((_, i) => shape.map((row) => row[i]).reverse())\<close>, for a matrix with
      a first row (\<open>rotate\<close> throws before it gets here otherwise)\<close>
  "rotated shp = map (\<lambda>i. rev (map (\<lambda>row. index row (int i)) shp)) [0..<length (shp ! 0)]"

fun wallKick :: "Piece \<Rightarrow> matrix \<Rightarrow> int list \<Rightarrow> Piece option" where
  \<comment> \<open>the \<open>for (const offset of [-1, 1, -2, 2])\<close> loop with its \<open>break\<close>\<close>
  "wallKick newPiece b [] = None"
| "wallKick newPiece b (offset # offsets) =
     (let kicked = newPiece\<lparr>x := x newPiece + offset\<rparr>
      in if \<not> collide kicked b then Some kicked else wallKick newPiece b offsets)"

definition rotate_piece :: "TetrisGame \<Rightarrow> TetrisGame outcome" where
  \<comment> \<open>the source's \<open>rotate\<close>; \<open>shape[0]\<close> is \<open>undefined\<close> for a matrix with no rows\<close>
  "rotate_piece g =
     (if \<not> isRunning g \<or> isPaused g \<or> isGameOver g then Return g
      else if shape (piece g) = [] then Throw TypeError g
      else
        let newPiece = (piece g)\<lparr>shape := rotated (shape (piece g))\<rparr>
        in if \<not> collide newPiece (board g) then Return (g\<lparr>piece := newPiece\<rparr>)
           else
             (case wallKick newPiece (board g) [-1, 1, -2, 2] of
                Some kicked \<Rightarrow> Return (g\<lparr>piece := kicked\<rparr>)
              | None \<Rightarrow> Return g))"

text \<open>
  The \<open>while\<close> loop of \<open>hardDrop\<close> does not end when no cell of the piece ever
  collides; \<open>None\<close> is the loop that runs forever.
\<close>

partial_function (option) hardDrop_loop :: "TetrisGame \<Rightarrow> TetrisGame option" where
  "hardDrop_loop g =
     (if \<not> collide (down (piece g)) (board g) then
        hardDrop_loop (g\<lparr>piece := down (piece g), score := plus_number (score g) (Num 2)\<rparr>)
      else Some g)"

declare hardDrop_loop.simps [code]

definition hardDrop :: "nat \<Rightarrow> TetrisGame \<Rightarrow> TetrisGame outcome option" where
  "hardDrop r g =
     (if \<not> isRunning g \<or> isPaused g \<or> isGameOver g then Some (Return g)
      else
        (case hardDrop_loop g of
           None \<Rightarrow> None
         | Some g' \<Rightarrow> Some (drop_step r g')))"

subsection \<open>Run control\<close>

definition freshRun :: "nat \<Rightarrow> nat \<Rightarrow> TetrisGame \<Rightarrow> TetrisGame" where
  \<comment> \<open>the assignments that \<open>startGame\<close> and \<open>restartGame\<close> share\<close>
  "freshRun r1 r2 g =
     g\<lparr>board := createEmptyBoard, boardColors := createEmptyColorBoard,
       piece := randomPiece r1, nextPiece := randomPiece r2,
       score := Num 0, lines := 0, level := 1,
       isGameOver := False, isPaused := False\<rparr>"

definition startGame :: "nat \<Rightarrow> nat \<Rightarrow> TetrisGame \<Rightarrow> TetrisGame" where
  "startGame r1 r2 g =
     (let g1 = (if isGameOver g \<or> \<not> isRunning g then freshRun r1 r2 g else g);
          g2 = g1\<lparr>isRunning := True, isPaused := False\<rparr>;
          g3 = (case currentHandle g2 of None \<Rightarrow> g2 | Some h \<Rightarrow> clearInterval h g2)
      in setInterval_drop (dropSpeed (level g3)) g3)"

definition pauseGame :: "TetrisGame \<Rightarrow> TetrisGame" where
  \<comment> \<open>resuming sets a new timer without clearing one the reference may still hold\<close>
  "pauseGame g =
     (if \<not> isRunning g \<or> isGameOver g then g
      else
        let g1 = g\<lparr>isPaused := \<not> isPaused g\<rparr>
        in if isPaused g1 then stopDropInterval g1
           else setInterval_drop (dropSpeed (level g1)) g1)"

definition restartGame :: "nat \<Rightarrow> nat \<Rightarrow> TetrisGame \<Rightarrow> TetrisGame" where
  \<comment> \<open>the timer is not touched\<close>
  "restartGame r1 r2 g = (freshRun r1 r2 g)\<lparr>isRunning := True\<rparr>"

subsection \<open>Dispatch\<close>

text \<open>
  \<open>handleAction\<close> receives the action string of every transport and of the keyboard.
  \<open>r1\<close> and \<open>r2\<close> are the shape indices drawn by the calls of \<open>randomPiece\<close>, in order.
\<close>

definition handleAction :: "string \<Rightarrow> nat \<Rightarrow> nat \<Rightarrow> TetrisGame \<Rightarrow> TetrisGame outcome option" where
  "handleAction action r1 r2 g =
     (if action = ''start'' then Some (Return (startGame r1 r2 g))
      else if action = ''pause'' then Some (Return (pauseGame g))
      else if action = ''restart'' then Some (Return (restartGame r1 r2 g))
      else if action = ''left'' then Some (Return (move (- 1) g))
      else if action = ''right'' then Some (Return (move 1 g))
      else if action = ''rotate'' then Some (rotate_piece g)
      else if action = ''drop'' then hardDrop r1 g
      else if action = ''softdrop'' then Some (drop_step r1 g)
      else Some (Return g))"

text \<open>The state the component is mounted with.\<close>

definition initialGame :: "nat \<Rightarrow> nat \<Rightarrow> TetrisGame" where
  "initialGame r1 r2 =
     \<lparr>board = createEmptyBoard, boardColors = createEmptyColorBoard,
      piece = randomPiece r1, nextPiece = randomPiece r2,
      score = Num 0, lines = 0, level = 1,
      isRunning = False, isPaused = False, isGameOver = False,
      dropIntervalRef = None, intervals = [], lastHandle = 0\<rparr>"

text \<open>
  What happens to the component: an action arrives, or a live interval timer fires and
  calls \<open>drop\<close>.
\<close>

datatype event = Action string | Tick

definition step :: "event \<Rightarrow> nat \<Rightarrow> nat \<Rightarrow> TetrisGame \<Rightarrow> TetrisGame outcome option" where
  "step ev r1 r2 g =
     (case ev of
        Action action \<Rightarrow> handleAction action r1 r2 g
      | Tick \<Rightarrow> if intervals g = [] then Some (Return g) else Some (drop_step r1 g))"

inductive reachable :: "TetrisGame \<Rightarrow> bool" where
  mounted: "r1 < length SHAPES \<Longrightarrow> r2 < length SHAPES \<Longrightarrow> reachable (initialGame r1 r2)"
| stepped: "reachable g \<Longrightarrow> r1 < length SHAPES \<Longrightarrow> r2 < length SHAPES \<Longrightarrow>
            step ev r1 r2 g = Some out \<Longrightarrow> reachable (after out)"

subsection \<open>Runs, invariants and the notions the properties are stated in\<close>

text \<open>A run of events, each with the shape indices it draws; \<open>None\<close> when a hard drop loops.\<close>

fun run :: "(event \<times> nat \<times> nat) list \<Rightarrow> TetrisGame \<Rightarrow> TetrisGame option" where
  "run [] g = Some g"
| "run ((ev, r1, r2) # evs) g =
     (case step ev r1 r2 g of None \<Rightarrow> None | Some out \<Rightarrow> run evs (after out))"

text \<open>The state after the \<open>while\<close> loop of \<open>hardDrop\<close> has gone round \<open>d\<close> times.\<close>

definition descended :: "nat \<Rightarrow> TetrisGame \<Rightarrow> TetrisGame" where
  "descended d g =
     g\<lparr>piece := (piece g)\<lparr>y := y (piece g) + int d\<rparr>,
       score := ((\<lambda>s. plus_number s (Num 2)) ^^ d) (score g)\<rparr>"

text \<open>The seven shapes in their four orientations.\<close>

definition knownShapes :: "matrix list" where
  "knownShapes =
     concat (map (\<lambda>(shp, col). [shp, rotated shp, rotated (rotated shp),
                                  rotated (rotated (rotated shp))]) SHAPES)"

text \<open>
  What holds of the timer in every reachable state: the only live interval timer is the
  one \<open>dropIntervalRef\<close> holds, and it is live only while the game runs.
\<close>

definition timerInv :: "TetrisGame \<Rightarrow> bool" where
  "timerInv g \<longleftrightarrow>
     map fst (intervals g) = (case dropIntervalRef g of None \<Rightarrow> [] | Some h \<Rightarrow> [h]) \<and>
     (case dropIntervalRef g of
        None \<Rightarrow> True
      | Some h \<Rightarrow>
          0 < h \<and> h \<le> lastHandle g \<and> isRunning g \<and> \<not> isPaused g \<and> \<not> isGameOver g)"

definition gameInv :: "TetrisGame \<Rightarrow> bool" where
  "gameInv g \<longleftrightarrow>
     level g = lines g div 10 + 1 \<and> timerInv g \<and>
     shape (piece g) \<in> set knownShapes \<and> shape (nextPiece g) \<in> set knownShapes"

text \<open>
  The words of the claims about game over: the board row of the first row of the piece's
  matrix that holds a cell, and the test that sends \<open>drop\<close> into its game-over branch.
\<close>

definition topmostOccupiedRow :: "Piece \<Rightarrow> int option" where
  "topmostOccupiedRow p =
     (case find (\<lambda>(dy, row). list_ex truthy row) (enumerate 0 (shape p)) of
        None \<Rightarrow> None
      | Some (dy, row) \<Rightarrow> Some (y p + int dy))"

definition lockedOut :: "TetrisGame \<Rightarrow> bool" where
  "lockedOut g \<longleftrightarrow>
     \<not> isPaused g \<and> \<not> isGameOver g \<and> collide (down (piece g)) (board g) \<and> y (piece g) \<le> 0"

text \<open>
  A run that ends one step before game over: after the start, nine square pieces are
  dropped on one another and fill rows 2 to 19 of columns 4 and 5; the tenth stands at
  row 0.
\<close>

definition stackTrace :: "(event \<times> nat \<times> nat) list" where
  "stackTrace = (Action ''start'', 1, 1) # replicate 9 (Action ''drop'', 1, 0)"

definition stackedGame :: TetrisGame where
  "stackedGame = the (run stackTrace (initialGame 0 0))"

text \<open>
  A run that ends one hard drop before a line is cleared: two bars lie in row 19 on
  columns 0 to 7, and the square stands at row 0 above columns 8 and 9.
\<close>

definition lineTrace :: "(event \<times> nat \<times> nat) list" where
  "lineTrace =
     [(Action ''start'', 0, 0),
      (Action ''left'', 0, 0), (Action ''left'', 0, 0), (Action ''left'', 0, 0),
      (Action ''drop'', 1, 0),
      (Action ''right'', 0, 0),
      (Action ''drop'', 0, 0),
      (Action ''right'', 0, 0), (Action ''right'', 0, 0), (Action ''right'', 0, 0),
      (Action ''right'', 0, 0)]"

definition lineReadyGame :: TetrisGame where
  "lineReadyGame = the (run lineTrace (initialGame 0 0))"

definition lineClearedGame :: TetrisGame where
  "lineClearedGame = after (the (step (Action ''drop'') 2 0 lineReadyGame))"


text \<open>
  A run without a start: 99 soft drops on the page as it is mounted lock nine square
  pieces on one another, and the tenth stands at row 0.
\<close>

definition unstartedGame :: TetrisGame where
  "unstartedGame = the (run (replicate 99 (Action ''softdrop'', 1, 1)) (initialGame 1 1))"

text \<open>
  The words of the claim about rotation: the clockwise quarter turn of a matrix is its
  transpose with every row reversed, and the placements tried are the turned matrix at
  the origin and at the horizontal offsets -1, +1, -2, +2, in this order.
\<close>

definition clockwise :: "matrix \<Rightarrow> matrix" where
  "clockwise shp = map rev (transpose shp)"

definition kickCandidates :: "Piece \<Rightarrow> Piece list" where
  "kickCandidates p =
     map (\<lambda>offset. p\<lparr>shape := clockwise (shape p), x := x p + offset\<rparr>) [0, - 1, 1, - 2, 2]"

text \<open>
  Two runs for the wall kick: a T piece turned upright and moved to the right wall (the
  next turn fits one column to the left only), and a bar turned upright and moved to
  the right wall (no turn fits).
\<close>

definition kickGame :: TetrisGame where
  "kickGame =
     the (run [(Action ''start'', 2, 0), (Action ''rotate'', 0, 0),
               (Action ''right'', 0, 0), (Action ''right'', 0, 0),
               (Action ''right'', 0, 0), (Action ''right'', 0, 0)] (initialGame 0 0))"

definition stuckGame :: TetrisGame where
  "stuckGame =
     the (run [(Action ''start'', 0, 0), (Action ''rotate'', 0, 0),
               (Action ''right'', 0, 0), (Action ''right'', 0, 0), (Action ''right'', 0, 0),
               (Action ''right'', 0, 0), (Action ''right'', 0, 0), (Action ''right'', 0, 0)]
            (initialGame 0 0))"

text \<open>
  For the loop of \<open>clearLines\<close>: the rows among the first \<open>i\<close> that are not full, and
  their colour rows.
\<close>

definition keptRows :: "nat \<Rightarrow> matrix \<Rightarrow> matrix" where
  "keptRows i b = filter (\<lambda>row. \<not> full_row row) (take i b)"

definition keptColors :: "nat \<Rightarrow> matrix \<Rightarrow> colors \<Rightarrow> colors" where
  "keptColors i b bc = map snd (filter (\<lambda>(row, crow). \<not> full_row row) (take i (zip b bc)))"

text \<open>
  A board with two full rows (17 and 19) and two marked rows that are not full (16 and
  18), and its colour board.
\<close>

definition demoBoard :: matrix where
  "demoBoard = createEmptyBoard
     [16 := [Some 1, Some 0, Some 0, Some 0, Some 0, Some 0, Some 0, Some 0, Some 0, Some 0],
      17 := replicate 10 (Some 1),
      18 := [Some 0, Some 1, Some 1, Some 0, Some 0, Some 0, Some 0, Some 0, Some 0, Some 0],
      19 := replicate 10 (Some 1)]"

definition demoColors :: colors where
  "demoColors = createEmptyColorBoard
     [16 := [Some ''#00f5ff'', None, None, None, None, None, None, None, None, None],
      17 := replicate 10 (Some ''#ffd700''),
      18 := [None, Some ''#a855f7'', Some ''#a855f7'', None, None, None, None, None, None, None],
      19 := replicate 10 (Some ''#ef4444'')]"

subsection \<open>The relay server\<close>

text \<open>
  The server registers one handler per connected socket. What a handler does is a list
  of effects: a line handed to \<open>log\<close> (message and source), or an event emitted to one
  socket (recipient, event name, payload).
\<close>

type_synonym socketId = string

datatype effect = Log string string | Emit socketId string string

text \<open>
  Modelled from the spec: \<open>socket.broadcast.emit\<close> and the registry of connected sockets
  belong to the socket.io library, whose code is not under src/. The spec says that the
  relay "forwards it unmodified to every other currently-connected peer" and that an event
  is "never echoed back to its sender"; the relay is "a connection registry plus a
  fan-out-to-others-only operation".
\<close>

record Relay =
  sockets :: "socketId list"

definition broadcastEmit :: "Relay \<Rightarrow> socketId \<Rightarrow> string \<Rightarrow> string \<Rightarrow> effect list" where
  "broadcastEmit rl sender ev payload =
     map (\<lambda>peer. Emit peer ev payload) (filter (\<lambda>peer. peer \<noteq> sender) (sockets rl))"

definition connect :: "socketId \<Rightarrow> Relay \<Rightarrow> Relay" where
  "connect sid rl = rl\<lparr>sockets := sockets rl @ [sid]\<rparr>"

definition disconnect :: "socketId \<Rightarrow> Relay \<Rightarrow> Relay" where
  "disconnect sid rl = rl\<lparr>sockets := filter (\<lambda>peer. peer \<noteq> sid) (sockets rl)\<rparr>"

text \<open>The handlers of \<open>registerRoutes\<close>, each returning the relay and its effects.\<close>

definition onConnection :: "socketId \<Rightarrow> Relay \<Rightarrow> Relay \<times> effect list" where
  "onConnection sid rl = (connect sid rl, [Log (''Client connected: '' @ sid) ''socket.io''])"

definition onControl :: "socketId \<Rightarrow> string \<Rightarrow> Relay \<Rightarrow> Relay \<times> effect list" where
  "onControl sid action rl =
     (rl, Log (''Control action received: '' @ action @ '' from '' @ sid) ''socket.io''
          # broadcastEmit rl sid ''control'' action)"

definition onDisconnect :: "socketId \<Rightarrow> Relay \<Rightarrow> Relay \<times> effect list" where
  "onDisconnect sid rl = (disconnect sid rl, [Log (''Client disconnected: '' @ sid) ''socket.io''])"

fun emitted :: "effect list \<Rightarrow> (socketId \<times> string \<times> string) list" where
  "emitted [] = []"
| "emitted (Log msg src # effs) = emitted effs"
| "emitted (Emit peer ev payload # effs) = (peer, ev, payload) # emitted effs"

section \<open>Invariants of the reachable states\<close>

subsection \<open>The invariant\<close>

text \<open>Every event keeps \<open>gameInv\<close>, whether it returns or throws.\<close>

lemma timerInv_iff:
  "timerInv g \<longleftrightarrow>
     map fst (intervals g) = (case dropIntervalRef g of None \<Rightarrow> [] | Some h \<Rightarrow> [h]) \<and>
     (\<forall>h. dropIntervalRef g = Some h \<longrightarrow>
        0 < h \<and> h \<le> lastHandle g \<and> isRunning g \<and> \<not> isPaused g \<and> \<not> isGameOver g)"
  by (simp add: timerInv_def split: option.splits)

lemma descended_0: "descended 0 g = g"
  by (simp add: descended_def)

lemma descended_Suc:
  "descended d (g\<lparr>piece := down (piece g), score := plus_number (score g) (Num 2)\<rparr>) =
   descended (Suc d) g"
proof -
  have "((\<lambda>s. plus_number s (Num 2)) ^^ d) (plus_number (score g) (Num 2)) =
        ((\<lambda>s. plus_number s (Num 2)) ^^ Suc d) (score g)"
    by (simp only: funpow_Suc_right o_apply)
  then show ?thesis
    by (simp add: descended_def down_def add.assoc)
qed

lemma hardDrop_loop_frame:
  assumes "hardDrop_loop g = Some g'"
  shows "\<exists>d. g' = descended d g"
proof (rule hardDrop_loop.raw_induct [where P = "\<lambda>a b. \<exists>d. b = descended d a", OF _ assms])
  fix f :: "TetrisGame \<Rightarrow> TetrisGame option" and a b
  assume IH: "\<And>u v. f u = Some v \<Longrightarrow> \<exists>d. v = descended d u"
    and eq: "(if \<not> collide (down (piece a)) (board a)
              then f (a\<lparr>piece := down (piece a), score := plus_number (score a) (Num 2)\<rparr>)
              else Some a) = Some b"
  show "\<exists>d. b = descended d a"
  proof (cases "collide (down (piece a)) (board a)")
    case True
    with eq have "b = a" by simp
    then show ?thesis using descended_0 by metis
  next
    case False
    with eq have "f (a\<lparr>piece := down (piece a), score := plus_number (score a) (Num 2)\<rparr>) = Some b"
      by simp
    from IH [OF this] obtain d
      where "b = descended d (a\<lparr>piece := down (piece a), score := plus_number (score a) (Num 2)\<rparr>)" ..
    then show ?thesis using descended_Suc by metis
  qed
qed

lemma rotated_known: "s \<in> set knownShapes \<Longrightarrow> rotated s \<in> set knownShapes"
proof -
  have "list_all (\<lambda>s. List.member knownShapes (rotated s)) knownShapes"
    by code_simp
  then show "s \<in> set knownShapes \<Longrightarrow> rotated s \<in> set knownShapes"
    by (simp add: list_all_iff)
qed

lemma randomPiece_known: "r < length SHAPES \<Longrightarrow> shape (randomPiece r) \<in> set knownShapes"
proof -
  have "list_all (\<lambda>r. List.member knownShapes (shape (randomPiece r))) [0..<length SHAPES]"
    by code_simp
  then show "r < length SHAPES \<Longrightarrow> shape (randomPiece r) \<in> set knownShapes"
    by (simp add: list_all_iff)
qed


lemma known_tight: "s \<in> set knownShapes \<Longrightarrow> s \<noteq> [] \<and> list_ex truthy (hd s)"
proof -
  have "list_all (\<lambda>s. s \<noteq> [] \<and> list_ex truthy (hd s)) knownShapes"
    by code_simp
  then show "s \<in> set knownShapes \<Longrightarrow> s \<noteq> [] \<and> list_ex truthy (hd s)"
    by (simp add: list_all_iff)
qed

lemma descended_fields:
  "board (descended d g) = board g" "boardColors (descended d g) = boardColors g"
  "nextPiece (descended d g) = nextPiece g" "lines (descended d g) = lines g"
  "level (descended d g) = level g" "isRunning (descended d g) = isRunning g"
  "isPaused (descended d g) = isPaused g" "isGameOver (descended d g) = isGameOver g"
  "dropIntervalRef (descended d g) = dropIntervalRef g" "intervals (descended d g) = intervals g"
  "lastHandle (descended d g) = lastHandle g" "shape (piece (descended d g)) = shape (piece g)"
  "x (piece (descended d g)) = x (piece g)" "color (piece (descended d g)) = color (piece g)"
  "y (piece (descended d g)) = y (piece g) + int d"
  "score (descended d g) = ((\<lambda>s. plus_number s (Num 2)) ^^ d) (score g)"
  by (simp_all add: descended_def)

lemma gameInv_descended: "gameInv g \<Longrightarrow> gameInv (descended d g)"
  by (simp add: gameInv_def timerInv_iff descended_fields)

lemma gameInv_initial:
  "r1 < length SHAPES \<Longrightarrow> r2 < length SHAPES \<Longrightarrow> gameInv (initialGame r1 r2)"
  by (simp add: gameInv_def timerInv_iff initialGame_def randomPiece_known)

lemma gameInv_startGame:
  "gameInv g \<Longrightarrow> r1 < length SHAPES \<Longrightarrow> r2 < length SHAPES \<Longrightarrow> gameInv (startGame r1 r2 g)"
  by (auto simp: gameInv_def timerInv_iff startGame_def freshRun_def setInterval_drop_def
      clearInterval_def currentHandle_def Let_def randomPiece_known split: option.splits)

lemma gameInv_pauseGame: "gameInv g \<Longrightarrow> gameInv (pauseGame g)"
  by (auto simp: gameInv_def timerInv_iff pauseGame_def stopDropInterval_def setInterval_drop_def
      clearInterval_def currentHandle_def Let_def split: option.splits)

lemma gameInv_restartGame:
  "gameInv g \<Longrightarrow> r1 < length SHAPES \<Longrightarrow> r2 < length SHAPES \<Longrightarrow> gameInv (restartGame r1 r2 g)"
  by (auto simp: gameInv_def timerInv_iff restartGame_def freshRun_def randomPiece_known
      split: option.splits)

lemma gameInv_move: "gameInv g \<Longrightarrow> gameInv (move dir g)"
  by (auto simp: gameInv_def timerInv_iff move_def Let_def split: option.splits)

lemma wallKick_shape: "wallKick p b offs = Some q \<Longrightarrow> shape q = shape p"
  by (induction offs) (auto simp: Let_def split: if_splits)

lemma gameInv_rotate: "gameInv g \<Longrightarrow> gameInv (after (rotate_piece g))"
  by (auto simp: gameInv_def timerInv_iff rotate_piece_def Let_def rotated_known
      dest: wallKick_shape split: option.splits)

lemma gameInv_awardLines:
  "timerInv g \<Longrightarrow>
   timerInv (awardLines n g) \<and> level (awardLines n g) = lines (awardLines n g) div 10 + 1 \<and>
   piece (awardLines n g) = piece g \<and> nextPiece (awardLines n g) = nextPiece g"
  by (auto simp: timerInv_iff awardLines_def setInterval_drop_def
      clearInterval_def currentHandle_def Let_def split: option.splits)

lemma gameInv_lockPiece:
  assumes "gameInv g" and "r < length SHAPES"
  shows "gameInv (after (lockPiece r g))"
proof -
  have base: "gameInv (g\<lparr>board := b, boardColors := bc\<rparr>)" for b bc
    using assms(1) by (simp add: gameInv_def timerInv_iff)
  have aw: "gameInv (awardLines n h)" if "gameInv h" for n h
    using gameInv_awardLines [of h n] that by (simp add: gameInv_def)
  have pr: "gameInv (h\<lparr>piece := nextPiece h, nextPiece := randomPiece r\<rparr>)" if "gameInv h" for h
    using that assms(2) by (simp add: gameInv_def timerInv_iff randomPiece_known)
  show ?thesis
    by (auto simp: lockPiece_def Let_def base aw pr split: outcome.splits prod.splits)
qed

lemma gameInv_drop_step:
  "gameInv g \<Longrightarrow> r < length SHAPES \<Longrightarrow> gameInv (after (drop_step r g))"
  using gameInv_lockPiece [of g r]
  by (auto simp: drop_step_def gameInv_def timerInv_iff stopDropInterval_def clearInterval_def
      currentHandle_def
      down_def split: option.splits)

lemma gameInv_hardDrop:
  "gameInv g \<Longrightarrow> r < length SHAPES \<Longrightarrow> hardDrop r g = Some out \<Longrightarrow> gameInv (after out)"
  by (auto simp: hardDrop_def split: if_splits option.splits
      dest!: hardDrop_loop_frame intro: gameInv_drop_step gameInv_descended)

lemma gameInv_step:
  "gameInv g \<Longrightarrow> r1 < length SHAPES \<Longrightarrow> r2 < length SHAPES \<Longrightarrow>
   step ev r1 r2 g = Some out \<Longrightarrow> gameInv (after out)"
  by (cases ev)
     (auto simp: step_def handleAction_def gameInv_startGame gameInv_pauseGame
        gameInv_restartGame gameInv_move gameInv_rotate gameInv_drop_step
        split: if_splits intro: gameInv_hardDrop)

lemma reachable_gameInv: "reachable g \<Longrightarrow> gameInv g"
  by (induction rule: reachable.induct) (auto intro: gameInv_initial gameInv_step)

subsection \<open>Runs\<close>

lemma reachable_run:
  "reachable g \<Longrightarrow> list_all (\<lambda>(ev, r1, r2). r1 < length SHAPES \<and> r2 < length SHAPES) evs \<Longrightarrow>
   run evs g = Some g' \<Longrightarrow> reachable g'"
proof (induction evs arbitrary: g)
  case Nil
  then show ?case by simp
next
  case (Cons e evs)
  obtain ev r1 r2 where e: "e = (ev, r1, r2)" by (cases e)
  from Cons.prems(3) e obtain out where
    st: "step ev r1 r2 g = Some out" and rest: "run evs (after out) = Some g'"
    by (auto split: option.splits)
  from Cons.prems(1,2) e st have "reachable (after out)"
    by (auto intro: reachable.stepped)
  with Cons.IH rest Cons.prems(2) show ?case by simp
qed

lemma topmost_tight:
  "shp \<noteq> [] \<Longrightarrow> list_ex truthy (hd shp) \<Longrightarrow> shape p = shp \<Longrightarrow> topmostOccupiedRow p = Some (y p)"
  by (cases shp) (simp_all add: topmostOccupiedRow_def enumerate_simps)

lemma reachable_topmost: "reachable g \<Longrightarrow> topmostOccupiedRow (piece g) = Some (y (piece g))"
  using reachable_gameInv [of g] known_tight [of "shape (piece g)"] topmost_tight
  by (auto simp: gameInv_def)

subsection \<open>Where the game ends\<close>

lemma stopDropInterval_timerInv:
  assumes "timerInv g"
  shows "stopDropInterval (g\<lparr>isGameOver := True\<rparr>) =
         g\<lparr>isGameOver := True, dropIntervalRef := None, intervals := []\<rparr>"
proof (cases "dropIntervalRef g")
  case None
  with assms have "intervals g = []" by (simp add: timerInv_iff)
  with None show ?thesis by (simp add: stopDropInterval_def currentHandle_def)
next
  case (Some h)
  with assms have "map fst (intervals g) = [h]" and "0 < h" by (simp_all add: timerInv_iff)
  then have "filter (\<lambda>t. fst t \<noteq> h) (intervals g) = []"
    by (auto simp: filter_empty_conv)
  with Some \<open>0 < h\<close> show ?thesis
    by (simp add: stopDropInterval_def clearInterval_def currentHandle_def)
qed

lemma isGameOver_awardLines: "isGameOver (awardLines n g) = isGameOver g"
  by (simp add: awardLines_def setInterval_drop_def clearInterval_def currentHandle_def Let_def split: option.splits)

lemma isGameOver_lockPiece: "isGameOver (after (lockPiece r g)) = isGameOver g"
  by (simp add: lockPiece_def Let_def isGameOver_awardLines split: outcome.splits prod.splits)

lemma drop_step_sets_gameOver:
  "\<not> isGameOver g \<Longrightarrow> isGameOver (after (drop_step r g)) \<Longrightarrow> lockedOut g"
  by (auto simp: drop_step_def lockedOut_def isGameOver_lockPiece split: if_splits)

lemma hardDrop_loop_stops:
  assumes "hardDrop_loop g = Some g'"
  shows "collide (down (piece g')) (board g')"
proof (rule hardDrop_loop.raw_induct [where P = "\<lambda>a b. collide (down (piece b)) (board b)", OF _ assms])
  fix f :: "TetrisGame \<Rightarrow> TetrisGame option" and a b
  assume IH: "\<And>u v. f u = Some v \<Longrightarrow> collide (down (piece v)) (board v)"
    and eq: "(if \<not> collide (down (piece a)) (board a)
              then f (a\<lparr>piece := down (piece a), score := plus_number (score a) (Num 2)\<rparr>)
              else Some a) = Some b"
  show "collide (down (piece b)) (board b)"
    using IH eq by (auto split: if_splits)
qed

lemma only_drop_sets_gameOver:
  assumes "step ev r1 r2 g = Some out" and "\<not> isGameOver g" and "isGameOver (after out)"
  shows "((ev = Tick \<or> ev = Action ''softdrop'') \<and> out = drop_step r1 g \<and> lockedOut g) \<or>
         (ev = Action ''drop'' \<and>
            (\<exists>d. hardDrop_loop g = Some (descended d g) \<and> out = drop_step r1 (descended d g) \<and>
                  lockedOut (descended d g)))"
proof (cases ev)
  case Tick
  with assms show ?thesis
    by (auto simp: step_def split: if_splits dest: drop_step_sets_gameOver)
next
  case (Action a)
  have flags: "\<not> isGameOver (startGame r1 r2 g)" "\<not> isGameOver (pauseGame g)"
    "\<not> isGameOver (restartGame r1 r2 g)" "\<not> isGameOver (move dir g)"
    "\<not> isGameOver (after (rotate_piece g))" for dir
    using assms(2)
    by (auto simp: startGame_def pauseGame_def restartGame_def move_def rotate_piece_def
        freshRun_def setInterval_drop_def clearInterval_def currentHandle_def stopDropInterval_def Let_def
        split: option.splits)
  show ?thesis
  proof (cases "a = ''drop''")
    case True
    with Action assms(1) have hd: "hardDrop r1 g = Some out"
      by (simp add: step_def handleAction_def)
    show ?thesis
    proof (cases "\<not> isRunning g \<or> isPaused g \<or> isGameOver g")
      case True
      with hd have "out = Return g" by (auto simp: hardDrop_def)
      with assms(2,3) show ?thesis by simp
    next
      case False
      with hd obtain g' where l: "hardDrop_loop g = Some g'" and o: "out = drop_step r1 g'"
        by (auto simp: hardDrop_def split: option.splits)
      from hardDrop_loop_frame [OF l] obtain d where d: "g' = descended d g" ..
      have "\<not> isGameOver g'" using d assms(2) by (simp add: descended_fields)
      with o assms(3) have "lockedOut g'" by (auto dest: drop_step_sets_gameOver)
      with l o d Action \<open>a = ''drop''\<close> show ?thesis by auto
    qed
  next
    case False
    with Action assms flags show ?thesis
      by (auto simp: step_def handleAction_def split: if_splits dest: drop_step_sets_gameOver)
  qed
qed

subsection \<open>The stacked run\<close>

lemma stackedGame_facts:
  "(let g = stackedGame in
      run stackTrace (initialGame 0 0) = Some g \<and>
      \<not> isPaused g \<and> \<not> isGameOver g \<and>
      collide (down (piece g)) (board g) \<and>
      topmostOccupiedRow (piece g) = Some 0 \<and>
      isRunning g \<and> intervals g = [(1, 700)])"
  by code_simp

lemma stackedGame_reachable: "reachable stackedGame"
proof -
  have "run stackTrace (initialGame 0 0) = Some stackedGame"
    using stackedGame_facts by (simp add: Let_def)
  moreover have "reachable (initialGame 0 0)"
    by (rule reachable.mounted) (simp_all add: SHAPES_def)
  moreover have "list_all (\<lambda>(ev, r1, r2). r1 < length SHAPES \<and> r2 < length SHAPES) stackTrace"
    by code_simp
  ultimately show ?thesis
    by (rule reachable_run [rotated 2])
qed

subsection \<open>Timers that an event creates\<close>

lemma timerInv_old_handles:
  "timerInv g \<Longrightarrow> t \<in> set (intervals g) \<Longrightarrow> fst t \<le> lastHandle g"
proof -
  assume inv: "timerInv g" and t: "t \<in> set (intervals g)"
  from t have "fst t \<in> set (map fst (intervals g))" by simp
  with inv show ?thesis
    by (auto simp: timerInv_iff split: option.splits)
qed

lemma sched_startGame:
  "timerInv g \<Longrightarrow> t \<in> set (intervals (startGame r1 r2 g)) \<Longrightarrow>
   fst t \<le> lastHandle g \<or> snd t = dropSpeed (level (startGame r1 r2 g))"
  by (auto simp: startGame_def freshRun_def setInterval_drop_def clearInterval_def currentHandle_def Let_def
      split: option.splits if_splits dest: timerInv_old_handles)

lemma sched_pauseGame:
  "timerInv g \<Longrightarrow> t \<in> set (intervals (pauseGame g)) \<Longrightarrow>
   fst t \<le> lastHandle g \<or> snd t = dropSpeed (level (pauseGame g))"
  by (auto simp: pauseGame_def stopDropInterval_def setInterval_drop_def clearInterval_def currentHandle_def Let_def
      split: option.splits if_splits dest: timerInv_old_handles)

lemma sched_awardLines:
  "timerInv g \<Longrightarrow> t \<in> set (intervals (awardLines n g)) \<Longrightarrow>
   fst t \<le> lastHandle g \<or> snd t = dropSpeed (level (awardLines n g))"
  by (auto simp: awardLines_def setInterval_drop_def clearInterval_def currentHandle_def Let_def
      split: option.splits if_splits dest: timerInv_old_handles)

lemma timerInv_board:
  "timerInv (g\<lparr>board := b, boardColors := bc\<rparr>) = timerInv g"
  by (simp add: timerInv_iff)

lemma sched_lockPiece:
  assumes "timerInv g" and "t \<in> set (intervals (after (lockPiece r g)))"
  shows "fst t \<le> lastHandle g \<or> snd t = dropSpeed (level (after (lockPiece r g)))"
proof (cases "merge (piece g) (board g) (boardColors g)")
  case (Throw e s)
  with assms show ?thesis
    by (auto simp: lockPiece_def split: prod.splits dest: timerInv_old_handles)
next
  case (Return s)
  obtain b bc where s: "s = (b, bc)" by (cases s)
  show ?thesis
  proof (cases "clearLines b bc")
    case (Throw e s')
    with Return s assms show ?thesis
      by (auto simp: lockPiece_def split: prod.splits dest: timerInv_old_handles)
  next
    case Return2: (Return s')
    obtain b' bc' n where s': "s' = (b', bc', n)" by (cases s')
    let ?g1 = "g\<lparr>board := b', boardColors := bc'\<rparr>"
    have inv1: "timerInv ?g1" using assms(1) by (simp add: timerInv_board)
    show ?thesis
    proof (cases "n > 0")
      case True
      with Return s Return2 s' assms(2) have "t \<in> set (intervals (awardLines n ?g1))"
        by (simp add: lockPiece_def Let_def)
      from sched_awardLines [OF inv1 this] Return s Return2 s' True show ?thesis
        by (simp add: lockPiece_def Let_def)
    next
      case False
      with Return s Return2 s' assms show ?thesis
        by (auto simp: lockPiece_def Let_def dest: timerInv_old_handles)
    qed
  qed
qed

lemma sched_drop_step:
  assumes "timerInv g" and "t \<in> set (intervals (after (drop_step r g)))"
  shows "fst t \<le> lastHandle g \<or> snd t = dropSpeed (level (after (drop_step r g)))"
  using assms sched_lockPiece [of g t r]
  by (auto simp: drop_step_def stopDropInterval_def clearInterval_def currentHandle_def
      split: if_splits option.splits dest: timerInv_old_handles)

lemma timerInv_descended: "timerInv g \<Longrightarrow> timerInv (descended d g)"
  by (simp add: timerInv_iff descended_fields)

lemma sched_step:
  assumes "timerInv g" and "step ev r1 r2 g = Some out" and "t \<in> set (intervals (after out))"
  shows "fst t \<le> lastHandle g \<or> snd t = dropSpeed (level (after out))"
proof (cases ev)
  case Tick
  with assms show ?thesis
    by (auto simp: step_def split: if_splits dest: timerInv_old_handles sched_drop_step)
next
  case (Action a)
  show ?thesis
  proof (cases "a = ''drop''")
    case True
    with Action assms(2) have hd: "hardDrop r1 g = Some out"
      by (simp add: step_def handleAction_def)
    show ?thesis
    proof (cases "\<not> isRunning g \<or> isPaused g \<or> isGameOver g")
      case True
      with hd have "out = Return g" by (auto simp: hardDrop_def)
      with assms show ?thesis by (auto dest: timerInv_old_handles)
    next
      case False
      with hd obtain g' where l: "hardDrop_loop g = Some g'" and o: "out = drop_step r1 g'"
        by (auto simp: hardDrop_def split: option.splits)
      from hardDrop_loop_frame [OF l] obtain d where d: "g' = descended d g" ..
      from sched_drop_step [OF timerInv_descended [OF assms(1)], of t r1 d] assms(3) o d
      show ?thesis by (simp add: descended_fields)
    qed
  next
    case False
    with Action assms show ?thesis
      by (auto simp: step_def handleAction_def move_def rotate_piece_def restartGame_def
          freshRun_def Let_def
          split: if_splits option.splits
          dest: timerInv_old_handles sched_drop_step sched_startGame sched_pauseGame)
  qed
qed

subsection \<open>The score of a lock and of a hard drop\<close>









lemma hardDrop_loop_returns:
  "(\<forall>k<d. \<not> collide ((piece g)\<lparr>y := y (piece g) + int k + 1\<rparr>) (board g)) \<Longrightarrow>
   collide ((piece g)\<lparr>y := y (piece g) + int d + 1\<rparr>) (board g) \<Longrightarrow>
   hardDrop_loop g = Some (descended d g)"
proof (induction d arbitrary: g)
  case 0
  then have "collide (down (piece g)) (board g)" by (simp add: down_def)
  then show ?case by (subst hardDrop_loop.simps) (simp add: descended_0)
next
  case (Suc d)
  let ?g1 = "g\<lparr>piece := down (piece g), score := plus_number (score g) (Num 2)\<rparr>"
  from Suc.prems(1) have nc: "\<not> collide (down (piece g)) (board g)"
    by (auto simp: down_def dest: spec [of _ 0])
  have "\<forall>k<d. \<not> collide ((piece ?g1)\<lparr>y := y (piece ?g1) + int k + 1\<rparr>) (board ?g1)"
  proof (intro allI impI)
    fix k assume "k < d"
    then have "Suc k < Suc d" by simp
    with Suc.prems(1) have "\<not> collide ((piece g)\<lparr>y := y (piece g) + int (Suc k) + 1\<rparr>) (board g)"
      by blast
    then show "\<not> collide ((piece ?g1)\<lparr>y := y (piece ?g1) + int k + 1\<rparr>) (board ?g1)"
      by (simp add: down_def add.commute add.left_commute)
  qed
  moreover have "collide ((piece ?g1)\<lparr>y := y (piece ?g1) + int d + 1\<rparr>) (board ?g1)"
    using Suc.prems(2) by (simp add: down_def add.commute add.left_commute)
  ultimately have "hardDrop_loop ?g1 = Some (descended d ?g1)"
    by (rule Suc.IH)
  with nc show ?case
    by (subst hardDrop_loop.simps) (simp add: descended_Suc)
qed

subsection \<open>The run that clears a line\<close>

lemma lineReadyGame_facts:
  "(let g = lineReadyGame;
        m = after (merge ((piece g)\<lparr>y := y (piece g) + int 18\<rparr>) (board g) (boardColors g)) in
      run lineTrace (initialGame 0 0) = Some g \<and>
      isRunning g \<and> \<not> isPaused g \<and> \<not> isGameOver g \<and>
      lines g = 0 \<and> level g = 1 \<and> lastHandle g = 1 \<and> score g = Num 76 \<and> y (piece g) = 0 \<and>
      list_all (\<lambda>k. \<not> collide ((piece g)\<lparr>y := y (piece g) + int k + 1\<rparr>) (board g)) [0..<18] \<and>
      collide ((piece g)\<lparr>y := y (piece g) + int 18 + 1\<rparr>) (board g) \<and>
      merge ((piece g)\<lparr>y := y (piece g) + int 18\<rparr>) (board g) (boardColors g) = Return m \<and>
      (case clearLines (fst m) (snd m) of Return (b', bc', n) \<Rightarrow> n = 1 | Throw e s \<Rightarrow> False))"
  by code_simp

lemma lineClearedGame_facts:
  "(let g' = lineClearedGame in
      step (Action ''drop'') 2 0 lineReadyGame = Some (Return g') \<and>
      intervals g' = [(2, 700)] \<and> lines g' = 1 \<and> level g' = 1 \<and> score g' = Num 212)"
  by code_simp

lemma lineReadyGame_reachable: "reachable lineReadyGame"
proof -
  have "run lineTrace (initialGame 0 0) = Some lineReadyGame"
    using lineReadyGame_facts by (simp add: Let_def)
  moreover have "reachable (initialGame 0 0)"
    by (rule reachable.mounted) (simp_all add: SHAPES_def)
  moreover have "list_all (\<lambda>(ev, r1, r2). r1 < length SHAPES \<and> r2 < length SHAPES) lineTrace"
    by code_simp
  ultimately show ?thesis
    by (rule reachable_run [rotated 2])
qed

subsection \<open>The quarter turn and the wall kick\<close>

lemma rotated_clockwise:
  assumes "shp \<noteq> []" and "\<forall>row \<in> set shp. length row = length (hd shp)"
  shows "rotated shp = clockwise shp"
proof -
  let ?n = "length (shp ! 0)"
  have hd0: "hd shp = shp ! 0" using assms(1) by (simp add: hd_conv_nth)
  have rect: "length (shp ! i) = ?n" if "i < length shp" for i
    using assms(2) that hd0 by simp
  have tr: "transpose shp = map (\<lambda>i. map (\<lambda>j. shp ! j ! i) [0..<length shp]) [0..<?n]"
  proof (rule transpose_rectangle)
    show "shp = [] \<Longrightarrow> ?n = 0" using assms(1) by simp
  next
    fix i assume "i < length shp"
    then show "length (shp ! i) = ?n" by (rule rect)
  qed
  have col: "map (\<lambda>row. index row (int i)) shp = map (\<lambda>j. shp ! j ! i) [0..<length shp]"
    if "i < ?n" for i
  proof (rule nth_equalityI)
    show "length (map (\<lambda>row. index row (int i)) shp) = length (map (\<lambda>j. shp ! j ! i) [0..<length shp])"
      by simp
  next
    fix j assume "j < length (map (\<lambda>row. index row (int i)) shp)"
    then have j: "j < length shp" by simp
    with rect that have "i < length (shp ! j)" by simp
    with j show "map (\<lambda>row. index row (int i)) shp ! j = map (\<lambda>j. shp ! j ! i) [0..<length shp] ! j"
      by (simp add: index_def)
  qed
  show ?thesis
    unfolding rotated_def clockwise_def tr
    by (simp add: col)
qed

lemma wallKick_find:
  "wallKick p b offs =
     find (\<lambda>q. \<not> collide q b) (map (\<lambda>offset. p\<lparr>x := x p + offset\<rparr>) offs)"
  by (induction offs) (simp_all add: Let_def)

lemma kickGame_facts:
  "(let g = kickGame in
      isRunning g \<and> \<not> isPaused g \<and> \<not> isGameOver g \<and>
      shape (piece g) = [[Some 1, Some 0], [Some 1, Some 1], [Some 1, Some 0]] \<and>
      x (piece g) = 8 \<and>
      find (\<lambda>q. \<not> collide q (board g)) (kickCandidates (piece g)) =
        Some ((piece g)\<lparr>shape := [[Some 1, Some 1, Some 1], [Some 0, Some 1, Some 0]], x := 7\<rparr>))"
  by code_simp

lemma stuckGame_facts:
  "(let g = stuckGame in
      isRunning g \<and> \<not> isPaused g \<and> \<not> isGameOver g \<and>
      shape (piece g) = [[Some 1], [Some 1], [Some 1], [Some 1]] \<and>
      x (piece g) = 9 \<and>
      find (\<lambda>q. \<not> collide q (board g)) (kickCandidates (piece g)) = None)"
  by code_simp

subsection \<open>The loop of \<open>clearLines\<close>\<close>

lemma take_splice1: "take i (splice1 i xs) = take i xs"
  by (simp add: splice1_def min_def)

lemma drop_splice1: "i < length xs \<Longrightarrow> drop i (splice1 i xs) = drop (Suc i) xs"
  by (simp add: splice1_def)

lemma length_splice1: "i < length xs \<Longrightarrow> length (splice1 i xs) = length xs - 1"
  by (simp add: splice1_def)

lemma zip_splice1:
  "length xs = length ys \<Longrightarrow> zip (splice1 i xs) (splice1 i ys) = splice1 i (zip xs ys)"
  by (simp add: splice1_def take_zip drop_zip)

lemma clearLines_loop_spec:
  assumes "length bc = length b" and "- 1 \<le> yi" and "nat (yi + 1) \<le> length b"
  shows "clearLines_loop yi b bc n =
     Return (replicate (length (filter full_row (take (nat (yi + 1)) b))) empty_row
               @ keptRows (nat (yi + 1)) b @ drop (nat (yi + 1)) b,
             replicate (length (filter full_row (take (nat (yi + 1)) b))) empty_color_row
               @ keptColors (nat (yi + 1)) b bc @ drop (nat (yi + 1)) bc,
             n + length (filter full_row (take (nat (yi + 1)) b)))"
  using assms
proof (induction yi b bc n rule: clearLines_loop.induct)
  case (1 yi b bc n)
  show ?case
  proof (cases "yi \<ge> 0")
    case False
    with 1(4) have "yi = - 1" by simp
    then show ?thesis
      by (subst clearLines_loop.simps) (simp add: keptRows_def keptColors_def)
  next
    case True
    let ?j = "nat yi"
    have i: "nat (yi + 1) = Suc ?j" using True by (simp add: nat_add_distrib)
    have jb: "?j < length b" using 1(5) i by simp
    have jc: "?j < length bc" using jb 1(3) by simp
    have tk: "take (Suc ?j) b = take ?j b @ [b ! ?j]"
      using jb by (simp add: take_Suc_conv_app_nth)
    have tkz: "take (Suc ?j) (zip b bc) = take ?j (zip b bc) @ [(b ! ?j, bc ! ?j)]"
      using jb jc by (simp add: take_Suc_conv_app_nth)
    show ?thesis
    proof (cases "full_row (b ! ?j)")
      case full: True
      let ?b = "empty_row # splice1 ?j b" and ?bc = "empty_color_row # splice1 ?j bc"
      have len: "length ?bc = length ?b" using 1(3) jb jc by (simp add: length_splice1)
      have le: "nat (yi + 1) \<le> length ?b" using jb i by (simp add: length_splice1)
      have IH: "clearLines_loop yi ?b ?bc (Suc n) =
         Return (replicate (length (filter full_row (take (nat (yi + 1)) ?b))) empty_row
                   @ keptRows (nat (yi + 1)) ?b @ drop (nat (yi + 1)) ?b,
                 replicate (length (filter full_row (take (nat (yi + 1)) ?b))) empty_color_row
                   @ keptColors (nat (yi + 1)) ?b ?bc @ drop (nat (yi + 1)) ?bc,
                 Suc n + length (filter full_row (take (nat (yi + 1)) ?b)))"
        using "1.IH"(1) [OF True _ _ len 1(4) le] jb full by simp
      have m: "length (filter full_row (take (Suc ?j) ?b)) = length (filter full_row (take ?j b))"
        by (simp add: take_splice1 full_row_empty_row)
      have m': "length (filter full_row (take (Suc ?j) b)) = Suc (length (filter full_row (take ?j b)))"
        using full by (simp add: tk)
      have k1: "keptRows (Suc ?j) ?b = empty_row # keptRows ?j b"
        by (simp add: keptRows_def take_splice1 full_row_empty_row)
      have k2: "keptRows (Suc ?j) b = keptRows ?j b"
        using full by (simp add: keptRows_def tk)
      have c1: "keptColors (Suc ?j) ?b ?bc = empty_color_row # keptColors ?j b bc"
        by (simp add: keptColors_def zip_splice1 [OF 1(3) [symmetric]] take_splice1 full_row_empty_row)
      have c2: "keptColors (Suc ?j) b bc = keptColors ?j b bc"
        using full by (simp add: keptColors_def tkz)
      have d1: "drop (Suc ?j) ?b = drop (Suc ?j) b" using jb by (simp add: drop_splice1)
      have d2: "drop (Suc ?j) ?bc = drop (Suc ?j) bc" using jc by (simp add: drop_splice1)
      have "clearLines_loop yi b bc n = clearLines_loop yi ?b ?bc (Suc n)"
        using True jb full by (subst clearLines_loop.simps) simp
      also note IH
      finally show ?thesis
        unfolding i m m' k1 k2 c1 c2 d1 d2
        by (simp add: replicate_app_Cons_same)
    next
      case notfull: False
      have le: "nat (yi - 1 + 1) \<le> length b" using jb by simp
      have IH: "clearLines_loop (yi - 1) b bc n =
         Return (replicate (length (filter full_row (take ?j b))) empty_row
                   @ keptRows ?j b @ drop ?j b,
                 replicate (length (filter full_row (take ?j b))) empty_color_row
                   @ keptColors ?j b bc @ drop ?j bc,
                 n + length (filter full_row (take ?j b)))"
        using "1.IH"(2) [OF True _ _ 1(3) _ le] jb notfull True by simp
      have m': "length (filter full_row (take (Suc ?j) b)) = length (filter full_row (take ?j b))"
        using notfull by (simp add: tk)
      have k2: "keptRows (Suc ?j) b @ drop (Suc ?j) b = keptRows ?j b @ drop ?j b"
        using notfull jb by (simp add: keptRows_def tk Cons_nth_drop_Suc)
      have c2: "keptColors (Suc ?j) b bc @ drop (Suc ?j) bc = keptColors ?j b bc @ drop ?j bc"
        using notfull jc by (simp add: keptColors_def tkz Cons_nth_drop_Suc)
      have "clearLines_loop yi b bc n = clearLines_loop (yi - 1) b bc n"
        using True jb notfull by (subst clearLines_loop.simps) simp
      also note IH
      finally show ?thesis
        unfolding i m' using k2 c2 by simp
    qed
  qed
qed

subsection \<open>Reachable pieces are matrices, and the hard drop returns\<close>

lemma known_matrix:
  "s \<in> set knownShapes \<Longrightarrow> s \<noteq> [] \<and> (\<forall>row \<in> set s. length row = length (hd s))"
proof -
  have "list_all (\<lambda>s. s \<noteq> [] \<and> list_all (\<lambda>row. length row = length (hd s)) s) knownShapes"
    by code_simp
  then show "s \<in> set knownShapes \<Longrightarrow> s \<noteq> [] \<and> (\<forall>row \<in> set s. length row = length (hd s))"
    unfolding list_all_iff by blast
qed

lemma reachable_matrix:
  "reachable g \<Longrightarrow>
   shape (piece g) \<noteq> [] \<and> (\<forall>row \<in> set (shape (piece g)). length row = length (hd (shape (piece g))))"
  using reachable_gameInv [of g] known_matrix [of "shape (piece g)"]
  unfolding gameInv_def by blast

lemma collide_below:
  assumes "dy < length (shape p)" and "dx < length (shape p ! dy)"
    and "truthy (shape p ! dy ! dx)" and "ROWS \<le> y p + int dy"
  shows "collide p b"
proof -
  have r: "(dy, shape p ! dy) \<in> set (enumerate 0 (shape p))"
    using assms(1) by (simp add: in_set_enumerate_eq)
  have c: "(dx, shape p ! dy ! dx) \<in> set (enumerate 0 (shape p ! dy))"
    using assms(2) by (simp add: in_set_enumerate_eq)
  show ?thesis
    unfolding collide_def list_ex_iff
    apply (rule bexI [OF _ r])
    apply (simp only: prod.case)
    apply (rule bexI [OF _ c])
    using assms(3,4) apply (simp add: Let_def)
    done
qed

lemma hardDrop_loop_total:
  assumes "list_ex (list_ex truthy) (shape (piece g))"
  shows "\<exists>d. hardDrop_loop g = Some (descended d g)"
proof -
  from assms obtain row v where row: "row \<in> set (shape (piece g))" and v: "v \<in> set row" "truthy v"
    by (auto simp: list_ex_iff)
  from row obtain dy where dy: "dy < length (shape (piece g))" "shape (piece g) ! dy = row"
    by (auto simp: in_set_conv_nth)
  from v(1) obtain dx where dx: "dx < length row" "row ! dx = v"
    by (auto simp: in_set_conv_nth)
  define P where "P n = collide ((piece g)\<lparr>y := y (piece g) + int n + 1\<rparr>) (board g)" for n
  have "P (nat (ROWS - y (piece g) - int dy))"
    unfolding P_def
  proof (rule collide_below [of dy _ dx])
    show "dy < length (shape ((piece g)\<lparr>y := y (piece g) + int (nat (ROWS - y (piece g) - int dy)) + 1\<rparr>))"
      using dy by simp
    show "dx < length (shape ((piece g)\<lparr>y := y (piece g) + int (nat (ROWS - y (piece g) - int dy)) + 1\<rparr>) ! dy)"
      using dy dx by simp
    show "truthy (shape ((piece g)\<lparr>y := y (piece g) + int (nat (ROWS - y (piece g) - int dy)) + 1\<rparr>) ! dy ! dx)"
      using dy dx v(2) by simp
    show "ROWS \<le> y ((piece g)\<lparr>y := y (piece g) + int (nat (ROWS - y (piece g) - int dy)) + 1\<rparr>) + int dy"
      by simp
  qed
  then have "P (LEAST n. P n)" and "\<forall>k < (LEAST n. P n). \<not> P k"
    by (auto intro: LeastI dest: not_less_Least)
  then have "hardDrop_loop g = Some (descended (LEAST n. P n) g)"
    unfolding P_def by (intro hardDrop_loop_returns) auto
  then show ?thesis ..
qed

lemma reachable_hardDrop_returns:
  assumes "reachable g"
  shows "\<exists>out. hardDrop r g = Some out"
proof -
  have "shape (piece g) \<in> set knownShapes"
    using reachable_gameInv [OF assms] by (simp add: gameInv_def)
  from known_tight [OF this] have "list_ex (list_ex truthy) (shape (piece g))"
    by (cases "shape (piece g)") (auto simp: list_ex_iff)
  from hardDrop_loop_total [OF this] show ?thesis
    by (auto simp: hardDrop_def)
qed

section \<open>Properties\<close>

subsection \<open>Guards of the player moves\<close>

text \<open>
  Claim C6. For each of the actions left, right, rotate and (hard) drop: when the game
  is not running, or is paused, or is over, the action returns normally and the whole
  state (board, piece, score, lines, level and everything else) is the state it was
  given. It neither throws nor loops.
\<close>

theorem guarded_actions_are_noops:
  assumes "\<not> isRunning g \<or> isPaused g \<or> isGameOver g"
  shows "handleAction ''left'' r1 r2 g = Some (Return g) \<and>
         handleAction ''right'' r1 r2 g = Some (Return g) \<and>
         handleAction ''rotate'' r1 r2 g = Some (Return g) \<and>
         handleAction ''drop'' r1 r2 g = Some (Return g)"
  using assms by (auto simp: handleAction_def move_def rotate_piece_def hardDrop_def)

theorem guarded_actions_are_noops_witness:
  "\<not> isRunning (initialGame 0 1) \<and>
   handleAction ''left'' 2 3 (initialGame 0 1) = Some (Return (initialGame 0 1)) \<and>
   handleAction ''right'' 2 3 (initialGame 0 1) = Some (Return (initialGame 0 1)) \<and>
   handleAction ''rotate'' 2 3 (initialGame 0 1) = Some (Return (initialGame 0 1)) \<and>
   handleAction ''drop'' 2 3 (initialGame 0 1) = Some (Return (initialGame 0 1)) \<and>
   isPaused (pauseGame (startGame 0 1 (initialGame 0 1))) \<and>
   handleAction ''drop'' 2 3 (pauseGame (startGame 0 1 (initialGame 0 1))) =
     Some (Return (pauseGame (startGame 0 1 (initialGame 0 1))))"
proof -
  have h: "\<not> isRunning (initialGame 0 1)"
    by (simp add: initialGame_def)
  have p: "isPaused (pauseGame (startGame 0 1 (initialGame 0 1)))"
    by code_simp
  show ?thesis
    using h p guarded_actions_are_noops [of "initialGame 0 1" 2 3]
      guarded_actions_are_noops [of "pauseGame (startGame 0 1 (initialGame 0 1))" 2 3]
    by simp
qed

text \<open>
  Claim C2. The claim asks the same guard of a soft drop sent by the player. The
  soft drop calls \<open>drop\<close>, whose guard tests \<open>isPaused\<close> and \<open>isGameOver\<close> only:
  on the state the page is mounted with (not running, piece at row 0 of an empty
  board) a soft drop moves the piece to row 1.
\<close>

theorem softdrop_moves_piece_before_start:
  "\<not> isRunning (initialGame 0 1) \<and>
   piece (initialGame 0 1) = randomPiece 0 \<and> y (randomPiece 0) = 0 \<and>
   handleAction ''softdrop'' 2 3 (initialGame 0 1) =
     Some (Return ((initialGame 0 1)\<lparr>piece := (randomPiece 0)\<lparr>y := 1\<rparr>\<rparr>))"
  by code_simp

lemma softdrop_paused_or_over:
  "isPaused g \<or> isGameOver g \<Longrightarrow> handleAction ''softdrop'' r1 r2 g = Some (Return g)"
  by (simp add: handleAction_def drop_step_def)

subsection \<open>Start\<close>

text \<open>
  Claim C8. The start action always returns, with the game running, not paused and not
  over. On a run that is in flight (running and not over) the board, the colour board,
  the piece, the next piece, the score, the lines and the level are what they were. When
  the game was not running, or was over, the board and colour board are the empty ones,
  score, lines and level are 0, 0 and 1, and the two pieces are freshly drawn.
\<close>

theorem start_resumes_or_begins_fresh:
  fixes g :: TetrisGame and r1 r2 :: nat
  defines "g' \<equiv> startGame r1 r2 g"
  shows "handleAction ''start'' r1 r2 g = Some (Return g') \<and>
    isRunning g' \<and> \<not> isPaused g' \<and> \<not> isGameOver g' \<and>
    (isRunning g \<and> \<not> isGameOver g \<longrightarrow>
       board g' = board g \<and> boardColors g' = boardColors g \<and> piece g' = piece g \<and>
       nextPiece g' = nextPiece g \<and> score g' = score g \<and> lines g' = lines g \<and>
       level g' = level g) \<and>
    (\<not> isRunning g \<or> isGameOver g \<longrightarrow>
       board g' = createEmptyBoard \<and> boardColors g' = createEmptyColorBoard \<and>
       piece g' = randomPiece r1 \<and> nextPiece g' = randomPiece r2 \<and>
       score g' = Num 0 \<and> lines g' = 0 \<and> level g' = 1)"
  unfolding g'_def
  by (auto simp: handleAction_def startGame_def freshRun_def setInterval_drop_def
      clearInterval_def currentHandle_def Let_def split: option.splits)

theorem start_resumes_or_begins_fresh_witness:
  "isRunning (after (the (handleAction ''softdrop'' 4 5 (startGame 0 1 (initialGame 2 3))))) \<and>
   \<not> isGameOver (after (the (handleAction ''softdrop'' 4 5 (startGame 0 1 (initialGame 2 3))))) \<and>
   piece (startGame 5 6 (after (the (handleAction ''softdrop'' 4 5 (startGame 0 1 (initialGame 2 3)))))) =
     (randomPiece 0)\<lparr>y := 1\<rparr> \<and>
   \<not> isRunning (initialGame 2 3) \<and>
   piece (startGame 0 1 (initialGame 2 3)) = randomPiece 0 \<and>
   board (startGame 0 1 (initialGame 2 3)) = createEmptyBoard"
proof -
  have a: "isRunning (after (the (handleAction ''softdrop'' 4 5 (startGame 0 1 (initialGame 2 3)))))"
    by code_simp
  have b: "\<not> isGameOver (after (the (handleAction ''softdrop'' 4 5 (startGame 0 1 (initialGame 2 3)))))"
    by code_simp
  have c: "piece (after (the (handleAction ''softdrop'' 4 5 (startGame 0 1 (initialGame 2 3))))) =
     (randomPiece 0)\<lparr>y := 1\<rparr>"
    by code_simp
  have d: "\<not> isRunning (initialGame 2 3)"
    by (simp add: initialGame_def)
  show ?thesis
    using a b c d
      start_resumes_or_begins_fresh [of 5 6 "after (the (handleAction ''softdrop'' 4 5 (startGame 0 1 (initialGame 2 3))))"]
      start_resumes_or_begins_fresh [of 0 1 "initialGame 2 3"]
    by simp
qed

subsection \<open>Game over\<close>

text \<open>
  What holds of the game-over branch. In a reachable state, when a gravity step (a call
  of \<open>drop\<close> that passes its guard) finds that the piece collides one row further down,
  and the topmost occupied row of the piece is at or above row 0, the step returns with
  \<open>isGameOver\<close> set and nothing else changed but the timer: \<open>isRunning\<close> is what it was,
  \<open>dropIntervalRef\<close> is null and no interval timer is live. And this is the only way:
  whatever event sets \<open>isGameOver\<close> is a timer tick or a soft drop whose \<open>drop\<close> was in that
  situation, or a hard drop whose final \<open>drop\<close> was.
\<close>

theorem gravity_step_game_over:
  assumes "reachable g" and "\<not> isPaused g" and "\<not> isGameOver g"
    and "collide (down (piece g)) (board g)"
    and "topmostOccupiedRow (piece g) = Some t" and "t \<le> 0"
  shows "drop_step r g = Return (g\<lparr>isGameOver := True, dropIntervalRef := None, intervals := []\<rparr>) \<and>
         isGameOver (after (drop_step r g)) \<and>
         isRunning (after (drop_step r g)) = isRunning g \<and>
         (isRunning g \<longrightarrow> isRunning (after (drop_step r g))) \<and>
         (intervals g \<noteq> [] \<longrightarrow> isRunning (after (drop_step r g))) \<and>
         dropIntervalRef (after (drop_step r g)) = None \<and>
         intervals (after (drop_step r g)) = [] \<and>
         (\<forall>ev r1 r2 g0 out.
            step ev r1 r2 g0 = Some out \<and> \<not> isGameOver g0 \<and> isGameOver (after out) \<longrightarrow>
              ((ev = Tick \<or> ev = Action ''softdrop'') \<and> out = drop_step r1 g0 \<and> lockedOut g0) \<or>
              (ev = Action ''drop'' \<and>
                 (\<exists>d. hardDrop_loop g0 = Some (descended d g0) \<and>
                       out = drop_step r1 (descended d g0) \<and> lockedOut (descended d g0))))"
proof -
  have inv: "timerInv g"
    using reachable_gameInv [OF assms(1)] by (simp add: gameInv_def)
  have "y (piece g) \<le> 0"
    using reachable_topmost [OF assms(1)] assms(5,6) by simp
  with assms(2-4) have eq: "drop_step r g =
      Return (g\<lparr>isGameOver := True, dropIntervalRef := None, intervals := []\<rparr>)"
    by (simp add: drop_step_def stopDropInterval_timerInv [OF inv])
  have run: "intervals g \<noteq> [] \<longrightarrow> isRunning g"
    using inv by (auto simp: timerInv_iff split: option.splits)
  have only: "\<forall>ev r1 r2 g0 out.
            step ev r1 r2 g0 = Some out \<and> \<not> isGameOver g0 \<and> isGameOver (after out) \<longrightarrow>
              ((ev = Tick \<or> ev = Action ''softdrop'') \<and> out = drop_step r1 g0 \<and> lockedOut g0) \<or>
              (ev = Action ''drop'' \<and>
                 (\<exists>d. hardDrop_loop g0 = Some (descended d g0) \<and>
                       out = drop_step r1 (descended d g0) \<and> lockedOut (descended d g0)))"
    using only_drop_sets_gameOver by blast
  from eq run have "drop_step r g = Return (g\<lparr>isGameOver := True, dropIntervalRef := None, intervals := []\<rparr>) \<and>
         isGameOver (after (drop_step r g)) \<and>
         isRunning (after (drop_step r g)) = isRunning g \<and>
         (isRunning g \<longrightarrow> isRunning (after (drop_step r g))) \<and>
         (intervals g \<noteq> [] \<longrightarrow> isRunning (after (drop_step r g))) \<and>
         dropIntervalRef (after (drop_step r g)) = None \<and>
         intervals (after (drop_step r g)) = []"
    by simp
  with only show ?thesis by blast
qed

theorem gravity_step_game_over_witness:
  "reachable stackedGame \<and> \<not> isPaused stackedGame \<and> \<not> isGameOver stackedGame \<and>
   collide (down (piece stackedGame)) (board stackedGame) \<and>
   topmostOccupiedRow (piece stackedGame) = Some 0 \<and> (0::int) \<le> 0 \<and>
   drop_step 3 stackedGame =
     Return (stackedGame\<lparr>isGameOver := True, dropIntervalRef := None, intervals := []\<rparr>) \<and>
   isRunning stackedGame \<and> intervals stackedGame = [(1, 700)] \<and>
   isRunning (after (drop_step 3 stackedGame)) \<and>
   intervals (after (drop_step 3 stackedGame)) = []"
proof -
  have f: "\<not> isPaused stackedGame" "\<not> isGameOver stackedGame"
    "collide (down (piece stackedGame)) (board stackedGame)"
    "topmostOccupiedRow (piece stackedGame) = Some 0"
    "isRunning stackedGame" "intervals stackedGame = [(1, 700)]"
    using stackedGame_facts by (simp_all add: Let_def)
  have z: "(0::int) \<le> 0" by simp
  note t = gravity_step_game_over [OF stackedGame_reachable f(1) f(2) f(3) f(4) z, of 3]
  from t have "drop_step 3 stackedGame =
     Return (stackedGame\<lparr>isGameOver := True, dropIntervalRef := None, intervals := []\<rparr>)"
    by (rule conjunct1)
  with f stackedGame_reachable show ?thesis by simp
qed

text \<open>
  Claim C1. The claim has the game-over step leave \<open>running\<close> at true. The guard of
  \<open>drop\<close> does not test \<open>isRunning\<close>, so soft drops act on a game that was never started:
  after 99 of them on the mounted page the state is reachable, not running, and in the
  situation of the game-over branch, and the next soft drop sets \<open>isGameOver\<close> while
  \<open>isRunning\<close> is false.
\<close>

theorem game_over_with_running_false:
  "reachable unstartedGame \<and> \<not> isRunning unstartedGame \<and>
   \<not> isPaused unstartedGame \<and> \<not> isGameOver unstartedGame \<and>
   collide (down (piece unstartedGame)) (board unstartedGame) \<and>
   topmostOccupiedRow (piece unstartedGame) = Some 0 \<and>
   handleAction ''softdrop'' 1 1 unstartedGame = Some (Return (unstartedGame\<lparr>isGameOver := True\<rparr>)) \<and>
   isGameOver (unstartedGame\<lparr>isGameOver := True\<rparr>) \<and>
   \<not> isRunning (unstartedGame\<lparr>isGameOver := True\<rparr>)"
proof -
  have f: "(let g = unstartedGame in
      run (replicate 99 (Action ''softdrop'', 1, 1)) (initialGame 1 1) = Some g \<and>
      \<not> isRunning g \<and> \<not> isPaused g \<and> \<not> isGameOver g \<and>
      collide (down (piece g)) (board g) \<and>
      topmostOccupiedRow (piece g) = Some 0 \<and>
      handleAction ''softdrop'' 1 1 g = Some (Return (g\<lparr>isGameOver := True\<rparr>)))"
    by code_simp
  then have r: "run (replicate 99 (Action ''softdrop'', 1, 1)) (initialGame 1 1) = Some unstartedGame"
    by (simp add: Let_def)
  have "reachable (initialGame 1 1)"
    by (rule reachable.mounted) (simp_all add: SHAPES_def)
  moreover have "list_all (\<lambda>(ev, r1, r2). r1 < length SHAPES \<and> r2 < length SHAPES)
      (replicate 99 (Action ''softdrop'', 1, 1))"
    by code_simp
  ultimately have "reachable unstartedGame"
    using r by (rule reachable_run)
  with f show ?thesis by (simp add: Let_def)
qed



subsection \<open>Level and speed\<close>

text \<open>
  Claim C7. In every reachable state the level is the lines total divided by ten,
  rounded down, plus one; so the totals 0, 9, 10, 19 and 20 go with the levels 1, 1, 2, 2
  and 3. And whenever an event schedules the gravity timer, its delay is
  \<open>max(100, 700 - (level - 1) * 50)\<close> ms for the level after the event: handles are given
  out in increasing order, so the timers an event created are those with a handle above
  the last one given out before it.
\<close>

theorem level_follows_lines_speed_follows_level:
  assumes "reachable g"
  shows "level g = lines g div 10 + 1 \<and>
    (lines g = 0 \<longrightarrow> level g = 1) \<and> (lines g = 9 \<longrightarrow> level g = 1) \<and>
    (lines g = 10 \<longrightarrow> level g = 2) \<and> (lines g = 19 \<longrightarrow> level g = 2) \<and>
    (lines g = 20 \<longrightarrow> level g = 3) \<and>
    (\<forall>ev r1 r2 out h ms.
       step ev r1 r2 g = Some out \<and> (h, ms) \<in> set (intervals (after out)) \<and> lastHandle g < h \<longrightarrow>
         ms = max 100 (700 - (level (after out) - 1) * 50))"
proof -
  have inv: "gameInv g" using assms by (rule reachable_gameInv)
  then have lv: "level g = lines g div 10 + 1" and ti: "timerInv g"
    by (simp_all add: gameInv_def)
  have "ms = max 100 (700 - (level (after out) - 1) * 50)"
    if "step ev r1 r2 g = Some out" "(h, ms) \<in> set (intervals (after out))" "lastHandle g < h"
    for ev r1 r2 out h ms
    using sched_step [OF ti that(1) that(2)] that(3) by (simp add: dropSpeed_def)
  then have sched: "\<forall>ev r1 r2 out h ms.
       step ev r1 r2 g = Some out \<and> (h, ms) \<in> set (intervals (after out)) \<and> lastHandle g < h \<longrightarrow>
         ms = max 100 (700 - (level (after out) - 1) * 50)"
    by blast
  from lv have "level g = lines g div 10 + 1 \<and>
    (lines g = 0 \<longrightarrow> level g = 1) \<and> (lines g = 9 \<longrightarrow> level g = 1) \<and>
    (lines g = 10 \<longrightarrow> level g = 2) \<and> (lines g = 19 \<longrightarrow> level g = 2) \<and>
    (lines g = 20 \<longrightarrow> level g = 3)"
    by simp
  with sched show ?thesis by blast
qed

theorem level_follows_lines_speed_follows_level_witness:
  "reachable lineReadyGame \<and>
   lines lineReadyGame = 0 \<and> level lineReadyGame = 1 \<and>
   level lineReadyGame = lines lineReadyGame div 10 + 1 \<and>
   step (Action ''drop'') 2 0 lineReadyGame = Some (Return lineClearedGame) \<and>
   lastHandle lineReadyGame = 1 \<and>
   intervals lineClearedGame = [(2, 700)] \<and>
   lines lineClearedGame = 1 \<and> level lineClearedGame = 1 \<and>
   (700::int) = max 100 (700 - (level lineClearedGame - 1) * 50)"
proof -
  note t = level_follows_lines_speed_follows_level [OF lineReadyGame_reachable]
  have f: "lines lineReadyGame = 0" "level lineReadyGame = 1" "lastHandle lineReadyGame = 1"
    using lineReadyGame_facts by (simp_all add: Let_def)
  have c: "step (Action ''drop'') 2 0 lineReadyGame = Some (Return lineClearedGame)"
    "intervals lineClearedGame = [(2, 700)]" "lines lineClearedGame = 1" "level lineClearedGame = 1"
    using lineClearedGame_facts by (simp_all add: Let_def)
  from t have lv: "level lineReadyGame = lines lineReadyGame div 10 + 1"
    by (rule conjunct1)
  from t have "\<forall>ev r1 r2 out h ms.
       step ev r1 r2 lineReadyGame = Some out \<and> (h, ms) \<in> set (intervals (after out)) \<and>
       lastHandle lineReadyGame < h \<longrightarrow> ms = max 100 (700 - (level (after out) - 1) * 50)"
    by blast
  then have "step (Action ''drop'') 2 0 lineReadyGame = Some (Return lineClearedGame) \<and>
       (2, 700) \<in> set (intervals (after (Return lineClearedGame))) \<and>
       lastHandle lineReadyGame < 2 \<longrightarrow> 700 = max 100 (700 - (level (after (Return lineClearedGame)) - 1) * 50)"
    by blast
  with c f have "(700::int) = max 100 (700 - (level lineClearedGame - 1) * 50)"
    by simp
  with lineReadyGame_reachable f c lv show ?thesis by simp
qed

subsection \<open>Scoring\<close>




subsection \<open>Rotation\<close>

text \<open>
  Claim C4. When the game is running, not paused and not over, and the piece's cells
  form a matrix (at least one row, all rows of one length), the rotate action returns
  normally; the piece becomes the first of the five placements (the clockwise quarter
  turn of the matrix, that is its transpose with each row reversed, at the origin and
  then at the offsets -1, +1, -2, +2) that does not collide, and nothing else changes;
  when all five collide, the state is the state it was given.
\<close>

theorem rotate_wall_kick:
  assumes "isRunning g" and "\<not> isPaused g" and "\<not> isGameOver g"
    and "shape (piece g) \<noteq> []"
    and "\<forall>row \<in> set (shape (piece g)). length row = length (hd (shape (piece g)))"
  shows "handleAction ''rotate'' r1 r2 g =
           Some (Return (case find (\<lambda>q. \<not> collide q (board g)) (kickCandidates (piece g)) of
                           None \<Rightarrow> g
                         | Some q \<Rightarrow> g\<lparr>piece := q\<rparr>))"
proof -
  let ?new = "(piece g)\<lparr>shape := rotated (shape (piece g))\<rparr>"
  have rot: "rotated (shape (piece g)) = clockwise (shape (piece g))"
    using assms(4,5) by (rule rotated_clockwise)
  have cands: "kickCandidates (piece g) =
      ?new # map (\<lambda>offset. ?new\<lparr>x := x ?new + offset\<rparr>) [- 1, 1, - 2, 2]"
    by (simp add: kickCandidates_def rot)
  have rp: "rotate_piece g =
      (if \<not> collide ?new (board g) then Return (g\<lparr>piece := ?new\<rparr>)
       else (case wallKick ?new (board g) [- 1, 1, - 2, 2] of
               Some kicked \<Rightarrow> Return (g\<lparr>piece := kicked\<rparr>)
             | None \<Rightarrow> Return g))"
    using assms(1-4) by (simp add: rotate_piece_def Let_def)
  have "rotate_piece g =
      Return (case find (\<lambda>q. \<not> collide q (board g)) (kickCandidates (piece g)) of
                None \<Rightarrow> g | Some q \<Rightarrow> g\<lparr>piece := q\<rparr>)"
  proof (cases "collide ?new (board g)")
    case False
    then show ?thesis unfolding rp cands by simp
  next
    case True
    then show ?thesis unfolding rp cands wallKick_find
      by (simp split: option.splits)
  qed
  then show ?thesis by (simp add: handleAction_def)
qed

theorem rotate_wall_kick_witness:
  "isRunning kickGame \<and> \<not> isPaused kickGame \<and> \<not> isGameOver kickGame \<and>
   shape (piece kickGame) = [[Some 1, Some 0], [Some 1, Some 1], [Some 1, Some 0]] \<and>
   x (piece kickGame) = 8 \<and>
   handleAction ''rotate'' 0 0 kickGame =
     Some (Return (kickGame\<lparr>piece := (piece kickGame)
       \<lparr>shape := [[Some 1, Some 1, Some 1], [Some 0, Some 1, Some 0]], x := 7\<rparr>\<rparr>)) \<and>
   isRunning stuckGame \<and> \<not> isPaused stuckGame \<and> \<not> isGameOver stuckGame \<and>
   shape (piece stuckGame) = [[Some 1], [Some 1], [Some 1], [Some 1]] \<and>
   x (piece stuckGame) = 9 \<and>
   handleAction ''rotate'' 0 0 stuckGame = Some (Return stuckGame)"
proof -
  have k: "isRunning kickGame" "\<not> isPaused kickGame" "\<not> isGameOver kickGame"
    "shape (piece kickGame) = [[Some 1, Some 0], [Some 1, Some 1], [Some 1, Some 0]]"
    "x (piece kickGame) = 8"
    "find (\<lambda>q. \<not> collide q (board kickGame)) (kickCandidates (piece kickGame)) =
        Some ((piece kickGame)\<lparr>shape := [[Some 1, Some 1, Some 1], [Some 0, Some 1, Some 0]], x := 7\<rparr>)"
    using kickGame_facts by (simp_all add: Let_def)
  have s: "isRunning stuckGame" "\<not> isPaused stuckGame" "\<not> isGameOver stuckGame"
    "shape (piece stuckGame) = [[Some 1], [Some 1], [Some 1], [Some 1]]"
    "x (piece stuckGame) = 9"
    "find (\<lambda>q. \<not> collide q (board stuckGame)) (kickCandidates (piece stuckGame)) = None"
    using stuckGame_facts by (simp_all add: Let_def)
  have km: "shape (piece kickGame) \<noteq> []"
    "\<forall>row \<in> set (shape (piece kickGame)). length row = length (hd (shape (piece kickGame)))"
    by (simp_all add: k(4))
  have sm: "shape (piece stuckGame) \<noteq> []"
    "\<forall>row \<in> set (shape (piece stuckGame)). length row = length (hd (shape (piece stuckGame)))"
    by (simp_all add: s(4))
  have "handleAction ''rotate'' 0 0 kickGame =
     Some (Return (kickGame\<lparr>piece := (piece kickGame)
       \<lparr>shape := [[Some 1, Some 1, Some 1], [Some 0, Some 1, Some 0]], x := 7\<rparr>\<rparr>))"
    using rotate_wall_kick [OF k(1) k(2) k(3) km, of 0 0] by (simp add: k(6))
  moreover have "handleAction ''rotate'' 0 0 stuckGame = Some (Return stuckGame)"
    using rotate_wall_kick [OF s(1) s(2) s(3) sm, of 0 0] by (simp add: s(6))
  ultimately show ?thesis using k s by simp
qed

subsection \<open>Line clearing\<close>

text \<open>
  Claim C3. On a board of 20 rows (with its colour board of 20 rows) that has exactly
  \<open>k\<close> full rows, whatever the other cells hold, \<open>clearLines\<close> returns \<open>k\<close>, and the board
  it leaves is \<open>k\<close> fresh empty rows followed by the rows that were not full, in the
  order they had; the colour board is changed alike. This holds for every \<open>k\<close>, so for
  \<open>k\<close> from 0 to 4.
\<close>

theorem clearLines_removes_full_rows:
  assumes "length b = nat ROWS" and "length bc = nat ROWS"
    and "length (filter full_row b) = k"
  shows "clearLines b bc =
     Return (replicate k (replicate 10 (Some 0)) @ filter (\<lambda>row. \<not> full_row row) b,
             replicate k (replicate 10 None)
               @ map snd (filter (\<lambda>(row, crow). \<not> full_row row) (zip b bc)),
             k)"
proof -
  have "nat (ROWS - 1 + 1) = length b" using assms(1) by simp
  then show ?thesis
    using clearLines_loop_spec [of bc b "ROWS - 1" 0] assms
    by (simp add: clearLines_def keptRows_def keptColors_def empty_row_def empty_color_row_def
        COLS_def ROWS_def)
qed

theorem clearLines_removes_full_rows_witness:
  "length demoBoard = nat ROWS \<and> length demoColors = nat ROWS \<and>
   length (filter full_row demoBoard) = 2 \<and>
   clearLines demoBoard demoColors =
     Return (createEmptyBoard
               [18 := [Some 1, Some 0, Some 0, Some 0, Some 0, Some 0, Some 0, Some 0, Some 0, Some 0],
                19 := [Some 0, Some 1, Some 1, Some 0, Some 0, Some 0, Some 0, Some 0, Some 0, Some 0]],
             createEmptyColorBoard
               [18 := [Some ''#00f5ff'', None, None, None, None, None, None, None, None, None],
                19 := [None, Some ''#a855f7'', Some ''#a855f7'', None, None, None, None, None, None, None]],
             2)"
proof -
  have l: "length demoBoard = nat ROWS" "length demoColors = nat ROWS"
    "length (filter full_row demoBoard) = 2"
    by code_simp+
  have r: "replicate 2 (replicate 10 (Some 0)) @ filter (\<lambda>row. \<not> full_row row) demoBoard =
      createEmptyBoard
               [18 := [Some 1, Some 0, Some 0, Some 0, Some 0, Some 0, Some 0, Some 0, Some 0, Some 0],
                19 := [Some 0, Some 1, Some 1, Some 0, Some 0, Some 0, Some 0, Some 0, Some 0, Some 0]]"
    by code_simp
  have c: "replicate 2 (replicate 10 None)
               @ map snd (filter (\<lambda>(row, crow). \<not> full_row row) (zip demoBoard demoColors)) =
      createEmptyColorBoard
               [18 := [Some ''#00f5ff'', None, None, None, None, None, None, None, None, None],
                19 := [None, Some ''#a855f7'', Some ''#a855f7'', None, None, None, None, None, None, None]]"
    by code_simp
  show ?thesis
    using l clearLines_removes_full_rows [OF l] by (simp only: r c simp_thms)
qed

subsection \<open>The relay\<close>

text \<open>
  Claim C10. When the relay receives a control event from a socket, it emits the event
  \<open>control\<close> with the payload it received, unchanged, once to every registered socket other
  than the sender, in the order of the registry, and emits nothing else: nothing goes back
  to the sender. The relay's state after the event is its state before.
\<close>

theorem relay_forwards_to_others:
  "fst (onControl sid action rl) = rl \<and>
   emitted (snd (onControl sid action rl)) =
     map (\<lambda>peer. (peer, ''control'', action)) (filter (\<lambda>peer. peer \<noteq> sid) (sockets rl)) \<and>
   (\<forall>peer ev payload.
      (peer, ev, payload) \<in> set (emitted (snd (onControl sid action rl))) \<longleftrightarrow>
        peer \<in> set (sockets rl) \<and> peer \<noteq> sid \<and> ev = ''control'' \<and> payload = action)"
proof -
  have e: "emitted (map (\<lambda>peer. Emit peer ev payload) ps) = map (\<lambda>peer. (peer, ev, payload)) ps"
    for ev payload ps
    by (induction ps) simp_all
  show ?thesis
    by (auto simp: onControl_def broadcastEmit_def e)
qed

theorem relay_forwards_to_others_witness:
  "fst (onControl ''b'' ''left'' \<lparr>sockets = [''a'', ''b'', ''c'']\<rparr>) = \<lparr>sockets = [''a'', ''b'', ''c'']\<rparr> \<and>
   emitted (snd (onControl ''b'' ''left'' \<lparr>sockets = [''a'', ''b'', ''c'']\<rparr>)) =
     [(''a'', ''control'', ''left''), (''c'', ''control'', ''left'')]"
  using relay_forwards_to_others [of "''b''" "''left''" "\<lparr>sockets = [''a'', ''b'', ''c'']\<rparr>"]
  by simp


end
